theory Spec2Isabelle
  imports Main "HOL-Library.Word" "HOL-Library.Multiset" "HOL-Library.AList"
begin

section \<open>Go values shared by the whole development\<close>

type_synonym byte = "8 word"

text \<open>A run-time panic of the Go program ends the call without a result.\<close>

datatype panic = SliceBoundsOutOfRange | InvalidMemory | NilDereference

datatype 'a outcome = Panic panic | Done 'a

subsection \<open>encoding/hex\<close>

definition hextable :: string where
  "hextable = ''0123456789abcdef''"

definition hexByte :: "byte \<Rightarrow> string" where
  "hexByte b = [hextable ! (unat b div 16), hextable ! (unat b mod 16)]"

definition EncodeToString :: "byte list \<Rightarrow> string" where
  "EncodeToString bs = concat (map hexByte bs)"

subsection \<open>Slices\<close>

text \<open>
  A byte slice is its visible elements \<open>xs\<close> together with the bytes \<open>sp\<close> of its backing
  array that lie between its length and its capacity. The slice expression \<open>s[lo:hi]\<close>
  panics when \<open>hi\<close> exceeds the capacity, and otherwise may reach into \<open>sp\<close>.
\<close>

definition sliceExpr :: "byte list \<Rightarrow> byte list \<Rightarrow> nat \<Rightarrow> nat \<Rightarrow> byte list outcome" where
  "sliceExpr xs sp lo hi =
     (if lo \<le> hi \<and> hi \<le> length xs + length sp
      then Done (take (hi - lo) (drop lo (xs @ sp)))
      else Panic SliceBoundsOutOfRange)"

text \<open>The builtin \<open>copy(dst, src)\<close>: the first \<open>min (len dst) (len src)\<close> bytes are overwritten.\<close>

definition copyBytes :: "byte list \<Rightarrow> byte list \<Rightarrow> byte list" where
  "copyBytes dst src = take (length dst) src @ drop (length src) dst"

section \<open>The memory image (fakevm.Memory)\<close>

record fakevmMemory =
  store :: "byte list"

text \<open>
  Modelled from the spec: package fakevm (state/runtime/fakevm) is not among the sources.
  Section 4.1 of the specification: the image is a growable, zero-initialized byte buffer,
  and a fresh one is empty.
\<close>

definition NewMemory :: fakevmMemory where
  "NewMemory = \<lparr>store = []\<rparr>"

text \<open>
  Modelled from the spec: \<open>Resize\<close> of the absent package fakevm. Section 4.1:
  \<open>resize(newSize)\<close> sets the logical length to \<open>newSize\<close>, zero-filling newly exposed
  bytes, truncating if smaller and keeping the overlapping prefix.
\<close>

definition Resize :: "fakevmMemory \<Rightarrow> nat \<Rightarrow> fakevmMemory" where
  "Resize m newSize =
     m\<lparr>store := take newSize (store m) @ replicate (newSize - length (store m)) 0\<rparr>"

text \<open>
  Modelled from the spec: \<open>Set\<close> of the absent package fakevm. Section 4.1:
  \<open>write(offset, size, data)\<close> copies \<open>size\<close> bytes of \<open>data\<close> to \<open>[offset, offset + size)\<close>;
  the buffer must already be large enough, and a violation is a fatal precondition
  failure.
\<close>

definition Set :: "fakevmMemory \<Rightarrow> nat \<Rightarrow> nat \<Rightarrow> byte list \<Rightarrow> fakevmMemory outcome" where
  "Set m offset sz val =
     (if offset + sz > length (store m) then Panic InvalidMemory
      else Done (m\<lparr>store := take offset (store m) @ take sz val
                              @ drop (offset + length (take sz val)) (store m)\<rparr>))"

text \<open>
  Modelled from the spec: \<open>Data\<close> of the absent package fakevm. Section 4.1: \<open>snapshot()\<close>
  returns the current buffer content.
\<close>

definition Data :: "fakevmMemory \<Rightarrow> byte list" where
  "Data m = store m"

section \<open>The trace formatter\<close>

record traceConfig =
  DisableStorage :: bool
  DisableStack :: bool
  EnableMemory :: bool
  EnableReturnData :: bool
  Tracer :: "string option"
  TracerConfig :: "byte list"

definition defaultTraceConfig :: traceConfig where
  "defaultTraceConfig =
     \<lparr>DisableStorage = False, DisableStack = False, EnableMemory = False,
      EnableReturnData = False, Tracer = None, TracerConfig = []\<rparr>"

text \<open>
  Modelled from the spec: instrumentation.StructLog is declared outside the sources; it
  is the RawExecutionStep of section 3 with the fields \<open>buildStructLogs\<close> reads. The
  unsigned counters are 64-bit words; \<open>MemorySize\<close> and \<open>MemoryOffset\<close> are Go ints (64-bit,
  read signed by \<open>> 0\<close> and reinterpreted by \<open>uint64(...)\<close>); a stack slot is a pointer to a
  big integer and may be nil; \<open>Storage\<close> is a Go map, given as the list of its key/value
  pairs (keys pairwise distinct) in the order the range statement visits them; \<open>Err\<close> is
  the message of the step's error, if any.
\<close>

record StructLog =
  Pc :: "64 word"
  Op :: string
  Gas :: "64 word"
  GasCost :: "64 word"
  Memory :: "byte list"
  MemorySize :: "64 word"
  MemoryOffset :: "64 word"
  Stack :: "int option list"
  Storage :: "(byte list \<times> byte list) list"
  Depth :: int
  RefundCounter :: "64 word"
  Err :: "string option"

record StructLogRes =
  resPc :: "64 word"
  resOp :: string
  resGas :: "64 word"
  resGasCost :: "64 word"
  resDepth :: int
  resError :: string
  resStack :: "int list option"
  resMemory :: "string list option"
  resStorage :: "(string \<times> string) list option"
  resRefundCounter :: "64 word"

text \<open>Lines 341-348: the renamed opcode, and the steps that are skipped.\<close>

definition renamedOp :: "string \<Rightarrow> string" where
  "renamedOp op = (if op = ''SHA3'' then ''KECCAK256'' else op)"

definition ignoredStep :: "StructLog \<Rightarrow> bool" where
  "ignoredStep structLog = (Op structLog \<noteq> ''SHA3'' \<and> Op structLog = ''STOP'' \<and> Pc structLog = 0)"

text \<open>Lines 360-368: the stack without its nil slots.\<close>

definition stackItems :: "int option list \<Rightarrow> int list" where
  "stackItems st = concat (map (\<lambda>item. case item of None \<Rightarrow> [] | Some v \<Rightarrow> [v]) st)"

text \<open>Lines 384-389: the loop over the snapshot \<open>xs\<close> (with \<open>sp\<close> behind it) from index \<open>i\<close>.\<close>

definition memoryChunkSize :: nat where
  "memoryChunkSize = 32"

function memoryArrayFrom :: "byte list \<Rightarrow> byte list \<Rightarrow> nat \<Rightarrow> string list outcome" where
  "memoryArrayFrom xs sp i =
     (if i < length xs then
        (case sliceExpr xs sp i (i + memoryChunkSize) of
           Panic p \<Rightarrow> Panic p
         | Done src \<Rightarrow>
             (case memoryArrayFrom xs sp (i + memoryChunkSize) of
                Panic p \<Rightarrow> Panic p
              | Done rest \<Rightarrow>
                  Done (EncodeToString (copyBytes (replicate memoryChunkSize 0) src) # rest)))
      else Done [])"
  by pat_completeness auto
termination
  by (relation "measure (\<lambda>(xs, sp, i). length xs - i)") (auto simp: memoryChunkSize_def)

declare memoryArrayFrom.simps [simp del]

text \<open>
  Lines 370-396. \<open>spare\<close> gives, for the content returned by \<open>Data\<close>, the bytes of the
  backing array behind it (capacity minus length many): they are fixed by the absent
  fakevm.Memory and by the Go allocator, so they are a parameter.
\<close>

definition memoryField ::
  "(byte list \<Rightarrow> byte list) \<Rightarrow> fakevmMemory \<Rightarrow> StructLog \<Rightarrow> (fakevmMemory \<times> string list) outcome" where
  "memoryField spare memory structLog =
     (let resized = Resize memory (unat (MemorySize structLog)) in
      case (if length (Memory structLog) > 0
            then Set resized (unat (MemoryOffset structLog)) (length (Memory structLog))
                   (Memory structLog)
            else Done resized) of
        Panic p \<Rightarrow> Panic p
      | Done written \<Rightarrow>
          if sint (MemorySize structLog) > 0 then
            (case memoryArrayFrom (Data written) (spare (Data written)) 0 of
               Panic p \<Rightarrow> Panic p
             | Done memoryArray \<Rightarrow> Done (written, memoryArray))
          else Done (NewMemory, []))"

text \<open>
  Lines 398-406. The resulting Go map from strings to strings is kept as an association
  list with one entry per key; \<open>storage[k] = v\<close> is \<open>AList.update k v\<close> and a lookup is
  \<open>map_of\<close>.
\<close>

definition storageMap :: "(byte list \<times> byte list) list \<Rightarrow> (string \<times> string) list" where
  "storageMap kvs =
     fold (\<lambda>(storageKey, storageValue) storage.
             AList.update (EncodeToString storageKey) (EncodeToString storageValue) storage)
       kvs []"

definition storageField :: "traceConfig \<Rightarrow> StructLog \<Rightarrow> (string \<times> string) list option" where
  "storageField cfg structLog =
     (if \<not> DisableStorage cfg \<and> length (Storage structLog) > 0
      then Some (storageMap (Storage structLog)) else None)"

text \<open>Lines 336-408 for one step that is not skipped.\<close>

definition structLogEntry ::
  "(byte list \<Rightarrow> byte list) \<Rightarrow> traceConfig \<Rightarrow> fakevmMemory \<Rightarrow> StructLog
     \<Rightarrow> (fakevmMemory \<times> StructLogRes) outcome" where
  "structLogEntry spare cfg memory structLog =
     (let errRes = (case Err structLog of None \<Rightarrow> [] | Some msg \<Rightarrow> msg);
          structLogRes =
            \<lparr>resPc = Pc structLog, resOp = renamedOp (Op structLog), resGas = Gas structLog,
             resGasCost = GasCost structLog, resDepth = Depth structLog, resError = errRes,
             resStack = (if \<not> DisableStack cfg then Some (stackItems (Stack structLog)) else None),
             resMemory = None, resStorage = None,
             resRefundCounter = RefundCounter structLog\<rparr>
      in case (if EnableMemory cfg
               then (case memoryField spare memory structLog of
                       Panic p \<Rightarrow> Panic p
                     | Done (memory', memoryArray) \<Rightarrow> Done (memory', Some memoryArray))
               else Done (memory, None)) of
           Panic p \<Rightarrow> Panic p
         | Done (memory', mem) \<Rightarrow>
             Done (memory', structLogRes\<lparr>resMemory := mem,
                                         resStorage := storageField cfg structLog\<rparr>))"

text \<open>Lines 335-409: the loop, carrying the memory image.\<close>

fun structLogsLoop ::
  "(byte list \<Rightarrow> byte list) \<Rightarrow> traceConfig \<Rightarrow> fakevmMemory \<Rightarrow> StructLog list
     \<Rightarrow> (fakevmMemory \<times> StructLogRes list) outcome" where
  "structLogsLoop spare cfg memory [] = Done (memory, [])"
| "structLogsLoop spare cfg memory (structLog # rest) =
     (if ignoredStep structLog then structLogsLoop spare cfg memory rest
      else case structLogEntry spare cfg memory structLog of
             Panic p \<Rightarrow> Panic p
           | Done (memory', structLogRes) \<Rightarrow>
               (case structLogsLoop spare cfg memory' rest of
                  Panic p \<Rightarrow> Panic p
                | Done (final, structLogs) \<Rightarrow> Done (final, structLogRes # structLogs)))"

definition buildStructLogs ::
  "(byte list \<Rightarrow> byte list) \<Rightarrow> StructLog list \<Rightarrow> traceConfig \<Rightarrow> StructLogRes list outcome" where
  "buildStructLogs spare stateStructLogs cfg =
     (case structLogsLoop spare cfg NewMemory stateStructLogs of
        Panic p \<Rightarrow> Panic p
      | Done (final, structLogs) \<Rightarrow> Done structLogs)"


section \<open>Errors, replies and collaborators\<close>

text \<open>
  A Go \<open>error\<close> value: the sentinel \<open>state.ErrNotFound\<close>, an error wrapping another one, or
  any other error. \<open>errors.Is\<close> follows the chain of wrapped errors, \<open>==\<close> does not.
\<close>

datatype goerror = ErrNotFound | ErrWrapped string goerror | ErrOther string

fun errorsIs :: "goerror \<Rightarrow> goerror \<Rightarrow> bool" where
  "errorsIs (ErrWrapped msg inner) target =
     (ErrWrapped msg inner = target \<or> errorsIs inner target)"
| "errorsIs err target = (err = target)"

text \<open>
  \<open>types.Error\<close>, built by \<open>types.NewRPCError\<close>. The value of \<open>types.DefaultErrorCode\<close> is
  declared outside the sources and is kept symbolic.
\<close>

datatype errorCode = DefaultErrorCode | OtherErrorCode int

datatype rpcError = RPCError errorCode string

definition NewRPCError :: "errorCode \<Rightarrow> string \<Rightarrow> rpcError" where
  "NewRPCError code message = RPCError code message"

text \<open>A Go result pair \<open>(interface{}, types.Error)\<close>: either component may be nil.\<close>

type_synonym 'v reply = "'v option \<times> rpcError option"

text \<open>
  Modelled from the spec: \<open>rpcErrorResponse\<close> is defined in another file of package
  jsonrpc. Section 7: the error given to it is logged with its cause and the client gets
  the message only; sections 4.5 and 4.6: no result accompanies the error.
\<close>

definition rpcErrorResponse :: "errorCode \<Rightarrow> string \<Rightarrow> 'e option \<Rightarrow> 'v reply" where
  "rpcErrorResponse code message err = (None, Some (NewRPCError code message))"

subsection \<open>fmt and common.Hash\<close>

type_synonym hash = "byte list"

definition hashString :: "hash \<Rightarrow> string" where
  "hashString h = ''0x'' @ EncodeToString h"

definition Bytes2Hex :: "byte list \<Rightarrow> string" where
  "Bytes2Hex d = EncodeToString d"

text \<open>The verbs \<open>%d\<close> and \<open>%v\<close> on an unsigned integer: its decimal digits.\<close>

function decimal :: "nat \<Rightarrow> string" where
  "decimal n =
     (if n < 10 then [''0123456789'' ! n]
      else decimal (n div 10) @ [''0123456789'' ! (n mod 10)])"
  by pat_completeness auto
termination
  by (relation "measure (\<lambda>n. n)") auto

declare decimal.simps [simp del]

subsection \<open>The state collaborator\<close>

record transaction =
  Hash :: hash

record block =
  Transactions :: "transaction list"

record batch =
  BatchNumber :: "64 word"

record receipt =
  TxHash :: hash
  Status :: "64 word"

definition ReceiptStatusFailed :: "64 word" where
  "ReceiptStatusFailed = 0"

record executionResult =
  ExecutorTraceResult :: "byte list"
  ReturnValue :: "byte list"
  StructLogs :: "StructLog list"
  GasUsed :: "64 word"

text \<open>
  Modelled from the spec: \<open>types.StateInterface\<close> and the number resolution of
  \<open>types.BlockNumber\<close> and \<open>types.BatchNumber\<close> are declared outside the sources; section 6
  lists the calls. Each call answers with an error or with a value (never both, never
  neither), so a Go pair \<open>(value, err)\<close> is a sum here, \<open>Inl\<close> the error; the value that
  comes with an error is nil. \<open>state.TraceConfig\<close> has the six fields of \<open>traceConfig\<close>, so
  the copy of lines 285-292 is the record itself.
\<close>

record stateInterface =
  GetNumericBlockNumber :: "int \<Rightarrow> rpcError + 64 word"
  GetL2BlockByNumber :: "64 word \<Rightarrow> goerror + block"
  GetL2BlockByHash :: "hash \<Rightarrow> goerror + block"
  GetNumericBatchNumber :: "int \<Rightarrow> rpcError + 64 word"
  GetBatchByNumber :: "64 word \<Rightarrow> goerror + batch"
  GetTransactionsByBatchNumber :: "64 word \<Rightarrow> goerror + transaction list"
  GetTransactionReceipt :: "hash \<Rightarrow> goerror + receipt"
  DebugTransaction :: "hash \<Rightarrow> traceConfig \<Rightarrow> goerror + executionResult"

text \<open>The \<open>err\<close> variable of a Go pair.\<close>

definition errOf :: "'e + 'a \<Rightarrow> 'e option" where
  "errOf r = (case r of Inl e \<Rightarrow> Some e | Inr v \<Rightarrow> None)"

text \<open>Every request made to a collaborator is recorded, in the order of the requests.\<close>

datatype call =
    CallGetNumericBlockNumber int
  | CallGetL2BlockByNumber "64 word"
  | CallGetL2BlockByHash hash
  | CallGetNumericBatchNumber int
  | CallGetBatchByNumber "64 word"
  | CallGetTransactionsByBatchNumber "64 word"
  | CallGetTransactionReceipt hash
  | CallDebugTransaction hash traceConfig
  | CallJSONRPC string string string "traceConfig option"

type_synonym 'a run = "call list \<times> 'a outcome"

section \<open>Tracer selection\<close>

text \<open>\<open>strings.Contains\<close>.\<close>

fun HasPrefix :: "string \<Rightarrow> string \<Rightarrow> bool" where
  "HasPrefix s [] = True"
| "HasPrefix [] (p # ps) = False"
| "HasPrefix (c # s) (p # ps) = (c = p \<and> HasPrefix s ps)"

fun Contains :: "string \<Rightarrow> string \<Rightarrow> bool" where
  "Contains [] substr = (substr = [])"
| "Contains (c # s) substr = (HasPrefix (c # s) substr \<or> Contains s substr)"

definition isBuiltInTracer :: "string \<Rightarrow> bool" where
  "isBuiltInTracer tracer =
     (if tracer = ''callTracer'' \<or> tracer = ''4byteTracer'' \<or> tracer = ''prestateTracer''
         \<or> tracer = ''noopTracer''
      then True else False)"

definition isJSCustomTracer :: "string \<Rightarrow> bool" where
  "isJSCustomTracer tracer = (Contains tracer ''result'' \<and> Contains tracer ''fault'')"

text \<open>Line 281: the condition under which the tracer is refused.\<close>

definition invalidTracer :: "traceConfig \<Rightarrow> bool" where
  "invalidTracer traceCfg =
     (case Tracer traceCfg of
        None \<Rightarrow> False
      | Some tracer \<Rightarrow> tracer \<noteq> [] \<and> \<not> isBuiltInTracer tracer \<and> \<not> isJSCustomTracer tracer)"

text \<open>Line 303: a tracer was specified.\<close>

definition tracerSpecified :: "traceConfig \<Rightarrow> bool" where
  "tracerSpecified traceCfg = (case Tracer traceCfg of None \<Rightarrow> False | Some tracer \<Rightarrow> tracer \<noteq> [])"

section \<open>Tracing one transaction\<close>

record traceTransactionResponse =
  respGas :: "64 word"
  respFailed :: bool
  respReturnValue :: "string option"
  respStructLogs :: "StructLogRes list"

text \<open>The non-nil values \<open>buildTraceTransaction\<close> returns as \<open>interface{}\<close>.\<close>

datatype traceValue = ExecutorTrace "byte list" | TraceTransactionValue traceTransactionResponse

definition buildTraceTransaction ::
  "(byte list \<Rightarrow> byte list) \<Rightarrow> stateInterface \<Rightarrow> hash \<Rightarrow> traceConfig option
     \<Rightarrow> traceValue reply run" where
  "buildTraceTransaction spare st hash cfg =
     (let traceCfg = (case cfg of None \<Rightarrow> defaultTraceConfig | Some c \<Rightarrow> c) in
      if invalidTracer traceCfg
      then ([], Done (rpcErrorResponse DefaultErrorCode ''invalid tracer'' (None :: goerror option)))
      else
        let stateTraceConfig = traceCfg;
            calls = [CallDebugTransaction hash stateTraceConfig]
        in case DebugTransaction st hash stateTraceConfig of
             Inl err \<Rightarrow>
               if errorsIs err ErrNotFound
               then (calls, Done (rpcErrorResponse DefaultErrorCode ''transaction not found''
                                    (None :: goerror option)))
               else (calls, Done (None, Some (NewRPCError DefaultErrorCode ''failed to get trace'')))
           | Inr result \<Rightarrow>
               if tracerSpecified stateTraceConfig \<and> length (ExecutorTraceResult result) > 0
               then (calls, Done (Some (ExecutorTrace (ExecutorTraceResult result)), None))
               else
                 let calls' = calls @ [CallGetTransactionReceipt hash]
                 in case GetTransactionReceipt st hash of
                      Inl err \<Rightarrow>
                        (calls', Done (None, Some (NewRPCError DefaultErrorCode ''failed to tx receipt'')))
                    | Inr receipt \<Rightarrow>
                        let failed = (Status receipt = ReceiptStatusFailed);
                            returnValue = (if EnableReturnData stateTraceConfig
                                           then Some (Bytes2Hex (ReturnValue result)) else None)
                        in case buildStructLogs spare (StructLogs result) traceCfg of
                             Panic p \<Rightarrow> (calls', Panic p)
                           | Done structLogs \<Rightarrow>
                               (calls', Done (Some (TraceTransactionValue
                                   \<lparr>respGas = GasUsed result, respFailed = failed,
                                    respReturnValue = returnValue,
                                    respStructLogs = structLogs\<rparr>), None)))"

section \<open>Tracing a block\<close>

record traceBlockTransactionResponse =
  blockResult :: "traceValue option"

text \<open>Lines 258-271: the loop, with the traces collected so far.\<close>

fun buildTraceBlockLoop ::
  "(byte list \<Rightarrow> byte list) \<Rightarrow> stateInterface \<Rightarrow> traceConfig option
     \<Rightarrow> traceBlockTransactionResponse list \<Rightarrow> transaction list
     \<Rightarrow> traceBlockTransactionResponse list reply run" where
  "buildTraceBlockLoop spare st cfg traces [] = ([], Done (Some traces, None))"
| "buildTraceBlockLoop spare st cfg traces (tx # txs) =
     (case buildTraceTransaction spare st (Hash tx) cfg of
        (calls, Panic p) \<Rightarrow> (calls, Panic p)
      | (calls, Done (traceTransaction, Some err)) \<Rightarrow>
          (calls, Done (rpcErrorResponse DefaultErrorCode
                          (''failed to get trace for transaction '' @ hashString (Hash tx))
                          (Some err)))
      | (calls, Done (traceTransaction, None)) \<Rightarrow>
          (case buildTraceBlockLoop spare st cfg
                  (traces @ [\<lparr>blockResult = traceTransaction\<rparr>]) txs of
             (calls', r) \<Rightarrow> (calls @ calls', r)))"

definition buildTraceBlock ::
  "(byte list \<Rightarrow> byte list) \<Rightarrow> stateInterface \<Rightarrow> transaction list \<Rightarrow> traceConfig option
     \<Rightarrow> traceBlockTransactionResponse list reply run" where
  "buildTraceBlock spare st txs cfg = buildTraceBlockLoop spare st cfg [] txs"

text \<open>
  Lines 103-108 and 123-128, shared by both block endpoints: \<open>lookup\<close> is the answer of
  the block lookup, whose \<open>err\<close> is the variable tested after \<open>buildTraceBlock\<close>.
\<close>

definition traceFoundBlock ::
  "(byte list \<Rightarrow> byte list) \<Rightarrow> stateInterface \<Rightarrow> traceConfig option \<Rightarrow> goerror + block
     \<Rightarrow> traceBlockTransactionResponse list reply run" where
  "traceFoundBlock spare st cfg lookup =
     (case lookup of
        Inl err \<Rightarrow> ([], Panic NilDereference)
      | Inr blk \<Rightarrow>
          (case buildTraceBlock spare st (Transactions blk) cfg of
             (calls, Panic p) \<Rightarrow> (calls, Panic p)
           | (calls, Done (traces, rpcErr)) \<Rightarrow>
               if errOf lookup \<noteq> None then (calls, Done (None, rpcErr))
               else (calls, Done (traces, None))))"

text \<open>
  \<open>NewDbTxScope\<close>, the transaction-scoping wrapper, is out of scope (section 1): it is the
  parameter \<open>scope\<close>, applied to what the function given to it computes.
\<close>

definition TraceTransaction ::
  "(traceValue reply run \<Rightarrow> 'r) \<Rightarrow> (byte list \<Rightarrow> byte list) \<Rightarrow> stateInterface \<Rightarrow> hash
     \<Rightarrow> traceConfig option \<Rightarrow> 'r" where
  "TraceTransaction scope spare st hash cfg = scope (buildTraceTransaction spare st hash cfg)"

definition TraceBlockByNumber ::
  "(traceBlockTransactionResponse list reply run \<Rightarrow> 'r) \<Rightarrow> (byte list \<Rightarrow> byte list)
     \<Rightarrow> stateInterface \<Rightarrow> int \<Rightarrow> traceConfig option \<Rightarrow> 'r" where
  "TraceBlockByNumber scope spare st number cfg = scope
     (case GetNumericBlockNumber st number of
        Inl rpcErr \<Rightarrow> ([CallGetNumericBlockNumber number], Done (None, Some rpcErr))
      | Inr blockNumber \<Rightarrow>
          (let calls = [CallGetNumericBlockNumber number, CallGetL2BlockByNumber blockNumber];
               lookup = GetL2BlockByNumber st blockNumber
           in if (case lookup of Inl err \<Rightarrow> errorsIs err ErrNotFound | Inr blk \<Rightarrow> False)
              then (calls, Done (None, Some (NewRPCError DefaultErrorCode
                      (''block #'' @ decimal (unat blockNumber) @ '' not found''))))
              else if errOf lookup = Some ErrNotFound
              then (calls, Done (rpcErrorResponse DefaultErrorCode
                      ''failed to get block by number'' (errOf lookup)))
              else (case traceFoundBlock spare st cfg lookup of
                      (calls', r) \<Rightarrow> (calls @ calls', r))))"

definition TraceBlockByHash ::
  "(traceBlockTransactionResponse list reply run \<Rightarrow> 'r) \<Rightarrow> (byte list \<Rightarrow> byte list)
     \<Rightarrow> stateInterface \<Rightarrow> hash \<Rightarrow> traceConfig option \<Rightarrow> 'r" where
  "TraceBlockByHash scope spare st hash cfg = scope
     (let calls = [CallGetL2BlockByHash hash];
          lookup = GetL2BlockByHash st hash
      in if (case lookup of Inl err \<Rightarrow> errorsIs err ErrNotFound | Inr blk \<Rightarrow> False)
         then (calls, Done (None, Some (NewRPCError DefaultErrorCode
                 (''block '' @ hashString hash @ '' not found''))))
         else if errOf lookup = Some ErrNotFound
         then (calls, Done (rpcErrorResponse DefaultErrorCode
                 ''failed to get block by hash'' (errOf lookup)))
         else (case traceFoundBlock spare st cfg lookup of
                 (calls', r) \<Rightarrow> (calls @ calls', r)))"

section \<open>Tracing a batch\<close>

text \<open>The parts of \<open>http.Request\<close> and \<open>url.URL\<close> that line 158-168 read and write.\<close>

record URL =
  Scheme :: string
  Host :: string
  Path :: string

record httpRequest =
  reqHost :: string
  reqURL :: URL

text \<open>Lines 159-167; \<open>url.URL.String\<close> belongs to the Go library and is the parameter \<open>urlString\<close>.\<close>

definition batchURL :: "httpRequest \<Rightarrow> URL" where
  "batchURL request =
     (let scheme = ''https'';
          scheme = (if Scheme (reqURL request) \<noteq> [] then Scheme (reqURL request) else scheme)
      in \<lparr>Scheme = scheme, Host = reqHost request, Path = Path (reqURL request)\<rparr>)"

text \<open>
  Modelled from the spec: \<open>client.JSONRPCCall\<close> (package jsonrpc/client) is not among the
  sources. Section 4.6, step 4: a call fails in transport, or answers with an RPC-level
  error, or answers with a result.
\<close>

record rpcErrorObject =
  errCode :: int
  errMessage :: string

record rpcResponse =
  respError :: "rpcErrorObject option"
  respResult :: "byte list"

record traceBatchTransactionResponse =
  batchTxHash :: hash
  batchResult :: "byte list"

text \<open>
  What the Go scheduler and the clock decide in one request: for each task, in dispatch
  order, the instant (in nanoseconds after the timer of \<open>waitTimeout\<close> starts) at which
  its \<open>wg.Done()\<close> runs; the order in which the tasks reach their send on \<open>responses\<close>, a
  permutation of the task indices; and the case \<open>select\<close> takes when both are ready.
\<close>

record schedule =
  doneAt :: "nat list"
  sendOrder :: "nat list"
  bothReady :: bool

definition Minute :: nat where
  "Minute = 60 * 1000000000"

definition timeout :: nat where
  "timeout = 10 * Minute"

definition bufferSize :: nat where
  "bufferSize = 10"

text \<open>
  Lines 434-445: channel \<open>c\<close> is closed when the last task is done, the timer fires at
  \<open>limit\<close>, and \<open>select\<close> takes the case that is ready first.
\<close>

definition waitTimeout :: "schedule \<Rightarrow> nat \<Rightarrow> bool" where
  "waitTimeout sched limit =
     (if list_all (\<lambda>t. t < limit) (doneAt sched) then False
      else if list_ex (\<lambda>t. limit < t) (doneAt sched) then True
      else bothReady sched)"

text \<open>Lines 204-222: what one task sends on \<open>responses\<close>, if anything.\<close>

definition loadTraceByTxHash ::
  "(string \<Rightarrow> string \<Rightarrow> string \<Rightarrow> traceConfig option \<Rightarrow> goerror + rpcResponse) \<Rightarrow> string
     \<Rightarrow> traceConfig option \<Rightarrow> receipt \<Rightarrow> traceBatchTransactionResponse option" where
  "loadTraceByTxHash JSONRPCCall rpcURL cfg rcpt =
     (case JSONRPCCall rpcURL ''debug_traceTransaction'' (hashString (TxHash rcpt)) cfg of
        Inl err \<Rightarrow> None
      | Inr res \<Rightarrow>
          (case respError res of
             Some e \<Rightarrow> None
           | None \<Rightarrow> Some \<lparr>batchTxHash = TxHash rcpt, batchResult = respResult res\<rparr>))"

text \<open>Lines 188-195: the receipts of the transactions, or the first failure.\<close>

fun loadReceipts ::
  "stateInterface \<Rightarrow> receipt list \<Rightarrow> transaction list
     \<Rightarrow> call list \<times> (hash \<times> goerror + receipt list)" where
  "loadReceipts st receipts [] = ([], Inr receipts)"
| "loadReceipts st receipts (tx # txs) =
     (case GetTransactionReceipt st (Hash tx) of
        Inl err \<Rightarrow> ([CallGetTransactionReceipt (Hash tx)], Inl (Hash tx, err))
      | Inr rcpt \<Rightarrow>
          (case loadReceipts st (receipts @ [rcpt]) txs of
             (calls, r) \<Rightarrow> (CallGetTransactionReceipt (Hash tx) # calls, r)))"

text \<open>
  Lines 197-253. Every receipt is handed to the dispatcher and gets its task, so every
  remote call is made; the channel \<open>responses\<close> holds what the tasks sent, in the order of
  their sends, and is read only when the wait did not time out.
\<close>

definition gatherTraces ::
  "(string \<Rightarrow> string \<Rightarrow> string \<Rightarrow> traceConfig option \<Rightarrow> goerror + rpcResponse) \<Rightarrow> schedule
     \<Rightarrow> string \<Rightarrow> traceConfig option \<Rightarrow> 64 word \<Rightarrow> receipt list
     \<Rightarrow> traceBatchTransactionResponse list reply run" where
  "gatherTraces JSONRPCCall sched rpcURL cfg batchNumber receipts =
     (let calls = map (\<lambda>rcpt. CallJSONRPC rpcURL ''debug_traceTransaction''
                                  (hashString (TxHash rcpt)) cfg) receipts;
          sent = map (loadTraceByTxHash JSONRPCCall rpcURL cfg) receipts;
          responses = concat (map (\<lambda>i. if i < length sent
                                         then (case sent ! i of None \<Rightarrow> [] | Some r \<Rightarrow> [r])
                                         else []) (sendOrder sched))
      in if waitTimeout sched timeout
         then (calls, Done (rpcErrorResponse DefaultErrorCode
                 (''failed to get traces for batch '' @ decimal (unat batchNumber)
                    @ '': timeout reached'') (None :: goerror option)))
         else (calls, Done (Some responses, None)))"

text \<open>Lines 188-253: the receipts, then the fan-out.\<close>

definition traceBatchReceipts ::
  "(string \<Rightarrow> string \<Rightarrow> string \<Rightarrow> traceConfig option \<Rightarrow> goerror + rpcResponse) \<Rightarrow> schedule
     \<Rightarrow> stateInterface \<Rightarrow> string \<Rightarrow> traceConfig option \<Rightarrow> 64 word \<Rightarrow> transaction list
     \<Rightarrow> traceBatchTransactionResponse list reply run" where
  "traceBatchReceipts JSONRPCCall sched st rpcURL cfg batchNumber txs =
     (case loadReceipts st [] txs of
        (calls, Inl (txHash, err)) \<Rightarrow>
          (calls, Done (rpcErrorResponse DefaultErrorCode
             (''couldn't load receipt for tx '' @ hashString txHash @ '' to get trace'')
             (Some err)))
      | (calls, Inr receipts) \<Rightarrow>
          (case gatherTraces JSONRPCCall sched rpcURL cfg batchNumber receipts of
             (calls', r) \<Rightarrow> (calls @ calls', r)))"

text \<open>Lines 183-253: the transactions of the batch that was found.\<close>

definition traceBatchTransactions ::
  "(string \<Rightarrow> string \<Rightarrow> string \<Rightarrow> traceConfig option \<Rightarrow> goerror + rpcResponse) \<Rightarrow> schedule
     \<Rightarrow> stateInterface \<Rightarrow> string \<Rightarrow> traceConfig option \<Rightarrow> 64 word \<Rightarrow> batch
     \<Rightarrow> traceBatchTransactionResponse list reply run" where
  "traceBatchTransactions JSONRPCCall sched st rpcURL cfg batchNumber batch =
     (let calls = [CallGetTransactionsByBatchNumber (BatchNumber batch)];
          txsLookup = GetTransactionsByBatchNumber st (BatchNumber batch)
      in if (case txsLookup of Inl err \<Rightarrow> \<not> errorsIs err ErrNotFound | Inr txs \<Rightarrow> False)
         then (calls, Done (rpcErrorResponse DefaultErrorCode
                 (''couldn't load batch txs from state by number ''
                    @ decimal (unat batchNumber) @ '' to create the traces'')
                 (errOf txsLookup)))
         else
           (case traceBatchReceipts JSONRPCCall sched st rpcURL cfg batchNumber
                   (case txsLookup of Inl err \<Rightarrow> [] | Inr txs \<Rightarrow> txs) of
              (calls', r) \<Rightarrow> (calls @ calls', r)))"

definition TraceBatchByNumber ::
  "(traceBatchTransactionResponse list reply run \<Rightarrow> 'r) \<Rightarrow> (URL \<Rightarrow> string)
     \<Rightarrow> (string \<Rightarrow> string \<Rightarrow> string \<Rightarrow> traceConfig option \<Rightarrow> goerror + rpcResponse)
     \<Rightarrow> schedule \<Rightarrow> stateInterface \<Rightarrow> httpRequest \<Rightarrow> int \<Rightarrow> traceConfig option \<Rightarrow> 'r" where
  "TraceBatchByNumber scope urlString JSONRPCCall sched st request number cfg =
     (let rpcURL = urlString (batchURL request) in scope
       (case GetNumericBatchNumber st number of
          Inl rpcErr \<Rightarrow> ([CallGetNumericBatchNumber number], Done (None, Some rpcErr))
        | Inr batchNumber \<Rightarrow>
            (let calls = [CallGetNumericBatchNumber number, CallGetBatchByNumber batchNumber]
             in case GetBatchByNumber st batchNumber of
                  Inl err \<Rightarrow>
                    if errorsIs err ErrNotFound
                    then (calls, Done (None, Some (NewRPCError DefaultErrorCode
                            (''batch #'' @ decimal (unat batchNumber) @ '' not found''))))
                    else if err = ErrNotFound
                    then (calls, Done (rpcErrorResponse DefaultErrorCode
                            ''failed to get batch by number'' (Some err)))
                    else (calls, Panic NilDereference)
                | Inr batch \<Rightarrow>
                    (case traceBatchTransactions JSONRPCCall sched st rpcURL cfg batchNumber batch of
                       (calls', r) \<Rightarrow> (calls @ calls', r)))))"

text \<open>
  The remote calls of a request all go to \<open>url\<close> and ask for \<open>debug_traceTransaction\<close>.
\<close>

definition remoteCallsTo :: "string \<Rightarrow> call list \<Rightarrow> bool" where
  "remoteCallsTo url calls =
     list_all (\<lambda>c. case c of CallJSONRPC u m h cfg \<Rightarrow> u = url \<and> m = ''debug_traceTransaction''
                       | _ \<Rightarrow> True) calls"

section \<open>Example inputs\<close>

definition memoryConfig :: traceConfig where
  "memoryConfig = defaultTraceConfig\<lparr>EnableMemory := True\<rparr>"

definition plainStep :: StructLog where
  "plainStep =
     \<lparr>Pc = 1, Op = ''MSTORE'', Gas = 100, GasCost = 3, Memory = [], MemorySize = 0,
      MemoryOffset = 0, Stack = [], Storage = [], Depth = 1, RefundCounter = 0, Err = None\<rparr>"

text \<open>A step that reports memory size 70 together with a write of 70 bytes at offset 0.\<close>

definition step70 :: StructLog where
  "step70 = plainStep\<lparr>Memory := replicate 70 0xAB, MemorySize := 70\<rparr>"

text \<open>
  The capacity Go gives a byte slice grown from empty to 70 bytes is the allocator's size
  class 80: ten zero bytes lie behind the content.
\<close>

definition spare80 :: "byte list \<Rightarrow> byte list" where
  "spare80 content = replicate (80 - length content) 0"

text \<open>A step whose write, if it has one, lies inside the memory size the step reports.\<close>

definition writeFits :: "StructLog \<Rightarrow> bool" where
  "writeFits s =
     (Memory s = [] \<or> unat (MemoryOffset s) + length (Memory s) \<le> unat (MemorySize s))"

text \<open>A write of 32 bytes into a memory of 32 bytes, and a later step that only reads it.\<close>

definition step32 :: StructLog where
  "step32 = plainStep\<lparr>Memory := replicate 32 0xFF, MemorySize := 32\<rparr>"

definition readStep :: StructLog where
  "readStep = plainStep\<lparr>Op := ''MLOAD'', MemorySize := 32\<rparr>"

text \<open>The artifact of a single-step call: \<open>STOP\<close> at program counter 0, memory size 0.\<close>

definition stopStep :: StructLog where
  "stopStep = plainStep\<lparr>Op := ''STOP'', Pc := 0\<rparr>"

text \<open>A step reporting memory size 0 that is not skipped.\<close>

definition resetStep :: StructLog where
  "resetStep = plainStep\<lparr>Op := ''RETURN'', Pc := 7\<rparr>"

text \<open>Steps whose write does not fit the size they report.\<close>

definition overflowStep :: StructLog where
  "overflowStep = plainStep\<lparr>Memory := replicate 32 0xFF, MemorySize := 32, MemoryOffset := 32\<rparr>"

definition strayWriteStep :: StructLog where
  "strayWriteStep = plainStep\<lparr>Memory := [1]\<rparr>"

text \<open>A step with two storage writes and a nil stack slot.\<close>

definition storageStep :: StructLog where
  "storageStep = plainStep\<lparr>Op := ''SSTORE'', Stack := [Some 5, None, Some 9],
     Storage := [([0, 1], [0, 2]), ([0, 3], [0, 4])]\<rparr>"

text \<open>
  Section 4.3 of the specification, in its own words: a requested tracer is valid iff it is
  absent or empty, one of the four built-in names, or a text containing both \<open>result\<close> and
  \<open>fault\<close>.
\<close>

definition validTracerSpec :: "string option \<Rightarrow> bool" where
  "validTracerSpec tracer =
     (case tracer of
        None \<Rightarrow> True
      | Some t \<Rightarrow>
          t = [] \<or> t \<in> {''callTracer'', ''4byteTracer'', ''prestateTracer'', ''noopTracer''}
          \<or> ((\<exists>p q. t = p @ ''result'' @ q) \<and> (\<exists>p q. t = p @ ''fault'' @ q)))"

text \<open>
  A state with five transactions in every batch and the first two of them in every block;
  the trace of the transaction with hash \<open>0x02\<close> is not found.
\<close>

definition exampleTxs :: "transaction list" where
  "exampleTxs = map (\<lambda>b. \<lparr>Hash = [b]\<rparr>) [1, 2, 3, 4, 5]"

definition exampleState :: stateInterface where
  "exampleState =
     \<lparr>GetNumericBlockNumber = (\<lambda>n. Inr (word_of_int n)),
      GetL2BlockByNumber = (\<lambda>n. Inr \<lparr>Transactions = take 2 exampleTxs\<rparr>),
      GetL2BlockByHash = (\<lambda>h. Inr \<lparr>Transactions = take 2 exampleTxs\<rparr>),
      GetNumericBatchNumber = (\<lambda>n. Inr (word_of_int n)),
      GetBatchByNumber = (\<lambda>n. Inr \<lparr>BatchNumber = n\<rparr>),
      GetTransactionsByBatchNumber = (\<lambda>n. Inr exampleTxs),
      GetTransactionReceipt = (\<lambda>h. Inr \<lparr>TxHash = h, Status = 1\<rparr>),
      DebugTransaction = (\<lambda>h c. if h = [2] then Inl ErrNotFound
                                else Inr \<lparr>ExecutorTraceResult = [], ReturnValue = [],
                                          StructLogs = [plainStep], GasUsed = 21000\<rparr>)\<rparr>"

text \<open>A configuration asking for a tracer that is neither built in nor a script.\<close>

definition bogusConfig :: traceConfig where
  "bogusConfig = defaultTraceConfig\<lparr>Tracer := Some ''bogus''\<rparr>"

text \<open>
  A batch request that arrived without a URL scheme, a stand-in for \<open>url.URL.String\<close> on
  plain values, and a remote end that fails in transport for transaction \<open>0x02\<close>, answers
  with an RPC error for \<open>0x04\<close> and succeeds for every other transaction.
\<close>

definition exampleRequest :: httpRequest where
  "exampleRequest = \<lparr>reqHost = ''node.example:8545'', reqURL = \<lparr>Scheme = [], Host = [], Path = ''/rpc''\<rparr>\<rparr>"

definition exampleUrlString :: "URL \<Rightarrow> string" where
  "exampleUrlString u = Scheme u @ ''://'' @ Host u @ Path u"

definition exampleRPC :: "string \<Rightarrow> string \<Rightarrow> string \<Rightarrow> traceConfig option \<Rightarrow> goerror + rpcResponse" where
  "exampleRPC rpcURL method txHash cfg =
     (if txHash = ''0x02'' then Inl (ErrOther ''connection refused'')
      else if txHash = ''0x04''
      then Inr \<lparr>respError = Some \<lparr>errCode = - 32000, errMessage = ''failed to get trace''\<rparr>,
                respResult = []\<rparr>
      else Inr \<lparr>respError = None, respResult = [1, 2, 3]\<rparr>)"

text \<open>
  Two schedules for five tasks: all done within ten nanoseconds, and the last one done one
  nanosecond after the ten minutes.
\<close>

definition onTime :: schedule where
  "onTime = \<lparr>doneAt = [5, 3, 9, 1, 7], sendOrder = [3, 1, 0, 4, 2], bothReady = False\<rparr>"

definition tooLate :: schedule where
  "tooLate = onTime\<lparr>doneAt := [5, 3, 9, 1, 600000000001]\<rparr>"


section \<open>Hex encoding\<close>
lemma hextable_inj: "i < 16 \<Longrightarrow> j < 16 \<Longrightarrow> hextable ! i = hextable ! j \<Longrightarrow> i = j"
proof -
  assume a: "i < 16" "j < 16" "hextable ! i = hextable ! j"
  have d: "distinct hextable" by (simp add: hextable_def)
  have l: "length hextable = 16" by (simp add: hextable_def)
  from a d l show "i = j" by (simp add: nth_eq_iff_index_eq)
qed

lemma hexByte_inj: "hexByte a = hexByte b \<Longrightarrow> a = b"
proof -
  assume h: "hexByte a = hexByte b"
  have ua: "unat a < 256" using unsigned_less [of a, where ?'a = nat] by simp
  have ub: "unat b < 256" using unsigned_less [of b, where ?'a = nat] by simp
  from ua have da: "unat a div 16 < 16" by simp
  from ub have db: "unat b div 16 < 16" by simp
  from h have h1: "hextable ! (unat a div 16) = hextable ! (unat b div 16)"
    and h2: "hextable ! (unat a mod 16) = hextable ! (unat b mod 16)"
    by (simp_all add: hexByte_def)
  from hextable_inj [OF da db h1] have e1: "unat a div 16 = unat b div 16" .
  from hextable_inj [OF _ _ h2] have e2: "unat a mod 16 = unat b mod 16" by simp
  have "unat a = 16 * (unat a div 16) + unat a mod 16" by simp
  also have "\<dots> = 16 * (unat b div 16) + unat b mod 16" using e1 e2 by simp
  also have "\<dots> = unat b" by simp
  finally show "a = b" by (rule word_unat_eq_iff [THEN iffD2])
qed

lemma length_hexByte: "length (hexByte b) = 2"
  by (simp add: hexByte_def)

lemma length_EncodeToString: "length (EncodeToString bs) = 2 * length bs"
  by (induction bs) (simp_all add: EncodeToString_def length_hexByte)

lemma EncodeToString_Cons: "EncodeToString (b # bs) = hexByte b @ EncodeToString bs"
  by (simp add: EncodeToString_def)

lemma EncodeToString_inj: "EncodeToString xs = EncodeToString ys \<Longrightarrow> xs = ys"
proof (induction xs arbitrary: ys)
  case Nil
  then have "length (EncodeToString ys) = 0" by (simp add: EncodeToString_def)
  then show ?case by (simp add: length_EncodeToString)
next
  case (Cons x xs)
  show ?case
  proof (cases ys)
    case Nil
    with Cons.prems have "length (EncodeToString (x # xs)) = 0" by (simp add: EncodeToString_def)
    then show ?thesis by (simp add: length_EncodeToString)
  next
    case (Cons y ys')
    with Cons.prems have "hexByte x @ EncodeToString xs = hexByte y @ EncodeToString ys'"
      by (simp add: EncodeToString_Cons)
    then have "hexByte x = hexByte y" "EncodeToString xs = EncodeToString ys'"
      by (simp_all add: length_hexByte)
    then show ?thesis using Cons.IH hexByte_inj Cons by simp
  qed
qed



section \<open>Chunking the memory snapshot\<close>

lemma memoryArrayFrom_past: "length xs \<le> i \<Longrightarrow> memoryArrayFrom xs sp i = Done []"
  by (simp add: memoryArrayFrom.simps [of xs sp i])

lemma memoryArrayFrom_step:
  assumes "i < length xs"
  shows "memoryArrayFrom xs sp i =
     (if i + 32 \<le> length xs + length sp then
        (case memoryArrayFrom xs sp (i + 32) of
           Panic p \<Rightarrow> Panic p
         | Done rest \<Rightarrow>
             Done (EncodeToString (copyBytes (replicate 32 0) (take 32 (drop i (xs @ sp)))) # rest))
      else Panic SliceBoundsOutOfRange)"
  using assms by (simp add: memoryArrayFrom.simps [of xs sp i] sliceExpr_def memoryChunkSize_def
      del: take_append drop_append cong: outcome.case_cong)

lemma length_copyBytes: "length (copyBytes dst src) = max (length dst) (min (length dst) (length src))"
  by (simp add: copyBytes_def) 

lemma memoryArrayFrom_Done:
  "memoryArrayFrom xs sp i = Done arr \<Longrightarrow>
     (\<forall>c \<in> set arr. length c = 64) \<and> length xs \<le> i + 32 * length arr
     \<and> (arr = [] \<or> i + 32 * length arr < length xs + 32)"
proof (induction "length xs - i" arbitrary: i arr rule: less_induct)
  case less
  show ?case
  proof (cases "i < length xs")
    case False
    with less.prems show ?thesis by (simp add: memoryArrayFrom_past)
  next
    case True
    from less.prems obtain rest where
      r: "memoryArrayFrom xs sp (i + 32) = Done rest"
      and a: "arr = EncodeToString (copyBytes (replicate 32 0) (take 32 (drop i (xs @ sp)))) # rest"
      by (auto simp: memoryArrayFrom_step [OF True] split: if_splits outcome.splits)
    have m: "length xs - (i + 32) < length xs - i" using True by simp
    from less.hyps [OF m r] have ih: "\<forall>c \<in> set rest. length c = 64"
      "length xs \<le> i + 32 + 32 * length rest"
      "rest = [] \<or> i + 32 + 32 * length rest < length xs + 32" by simp_all
    have lc: "length (EncodeToString (copyBytes (replicate 32 0) (take 32 (drop i (xs @ sp))))) = 64"
      by (simp add: length_EncodeToString length_copyBytes)
    show ?thesis
    proof (intro conjI)
      show "\<forall>c \<in> set arr. length c = 64" using a ih(1) lc by simp
      show "length xs \<le> i + 32 * length arr" using a ih(2) by simp
      show "arr = [] \<or> i + 32 * length arr < length xs + 32"
      proof (cases "rest = []")
        case True
        then show ?thesis using a \<open>i < length xs\<close> by simp
      next
        case False
        then show ?thesis using a ih(3) by simp
      qed
    qed
  qed
qed

lemma memoryArrayFrom_total:
  "i + 32 * k = length xs \<Longrightarrow> \<exists>arr. memoryArrayFrom xs sp i = Done arr"
proof (induction k arbitrary: i)
  case 0
  then show ?case by (simp add: memoryArrayFrom_past)
next
  case (Suc k)
  then have lt: "i < length xs" and f: "i + 32 \<le> length xs + length sp" and n: "(i + 32) + 32 * k = length xs"
    by simp_all
  from Suc.IH [OF n] obtain rest where "memoryArrayFrom xs sp (i + 32) = Done rest" by blast
  then show ?case using f by (simp add: memoryArrayFrom_step [OF lt])
qed


text \<open>
  C1 (code defect). With \<open>enableMemory\<close> set, a step reporting memory size 70 with a write
  of 70 bytes at offset 0 should give three chunks of 64 hex characters, the last one
  zero-padded. The loop of lines 384-389 takes \<open>structLog.Memory[64:96]\<close> from the 70-byte
  snapshot; whether the capacity behind it is 80 or just the 70 bytes, the slice
  expression panics and the formatter returns no memory field at all.
\<close>

theorem buildStructLogs_size70_panics:
  "buildStructLogs spare80 [step70] memoryConfig = Panic SliceBoundsOutOfRange
   \<and> buildStructLogs (\<lambda>content. []) [step70] memoryConfig = Panic SliceBoundsOutOfRange"
  by (simp add: buildStructLogs_def memoryConfig_def step70_def plainStep_def spare80_def
      defaultTraceConfig_def ignoredStep_def structLogEntry_def memoryField_def Resize_def
      NewMemory_def Set_def Data_def memoryArrayFrom.simps sliceExpr_def memoryChunkSize_def)

section \<open>The loop of the formatter\<close>

lemma ignoredStep_iff: "ignoredStep s \<longleftrightarrow> Op s = ''STOP'' \<and> Pc s = 0"
  by (auto simp: ignoredStep_def)

lemma structLogEntry_fields:
  assumes "structLogEntry spare cfg mem s = Done (mem', e)"
  shows "resPc e = Pc s" "resOp e = renamedOp (Op s)" "resGas e = Gas s"
    "resGasCost e = GasCost s" "resDepth e = Depth s"
    "resError e = (case Err s of None \<Rightarrow> [] | Some msg \<Rightarrow> msg)"
    "resRefundCounter e = RefundCounter s"
    "resStorage e = storageField cfg s"
    "resStack e = (if DisableStack cfg then None else Some (stackItems (Stack s)))"
  using assms
  by (auto simp: structLogEntry_def Let_def split: if_splits outcome.splits prod.splits)

lemma structLogEntry_no_memory:
  "\<not> EnableMemory cfg \<Longrightarrow> \<exists>e. structLogEntry spare cfg mem s = Done (mem, e)"
  by (simp add: structLogEntry_def Let_def)

lemma structLogsLoop_Cons_kept:
  assumes "\<not> ignoredStep s" "structLogsLoop spare cfg mem (s # rest) = Done (final, logs)"
  obtains mem' e logs' where "structLogEntry spare cfg mem s = Done (mem', e)"
    "structLogsLoop spare cfg mem' rest = Done (final, logs')" "logs = e # logs'"
  using assms by (auto split: outcome.splits prod.splits)

lemma structLogsLoop_entries:
  "structLogsLoop spare cfg mem steps = Done (final, logs) \<Longrightarrow>
     map (\<lambda>e. (resPc e, resOp e, resGas e, resGasCost e, resDepth e, resError e, resRefundCounter e)) logs
       = map (\<lambda>s. (Pc s, renamedOp (Op s), Gas s, GasCost s, Depth s,
                    (case Err s of None \<Rightarrow> [] | Some msg \<Rightarrow> msg), RefundCounter s))
           (filter (\<lambda>s. \<not> ignoredStep s) steps)"
proof (induction steps arbitrary: mem logs)
  case Nil
  then show ?case by simp
next
  case (Cons s rest)
  show ?case
  proof (cases "ignoredStep s")
    case True
    with Cons show ?thesis by simp
  next
    case False
    from structLogsLoop_Cons_kept [OF False Cons.prems] obtain mem' e logs' where
      e: "structLogEntry spare cfg mem s = Done (mem', e)"
      and r: "structLogsLoop spare cfg mem' rest = Done (final, logs')" and l: "logs = e # logs'"
      by blast
    from Cons.IH [OF r] structLogEntry_fields [OF e] False l show ?thesis by simp
  qed
qed

lemma structLogsLoop_storage:
  "structLogsLoop spare cfg mem steps = Done (final, logs) \<Longrightarrow>
     map resStorage logs = map (storageField cfg) (filter (\<lambda>s. \<not> ignoredStep s) steps)"
proof (induction steps arbitrary: mem logs)
  case Nil
  then show ?case by simp
next
  case (Cons s rest)
  show ?case
  proof (cases "ignoredStep s")
    case True
    with Cons show ?thesis by simp
  next
    case False
    from structLogsLoop_Cons_kept [OF False Cons.prems] obtain mem' e logs' where
      e: "structLogEntry spare cfg mem s = Done (mem', e)"
      and r: "structLogsLoop spare cfg mem' rest = Done (final, logs')" and l: "logs = e # logs'"
      by blast
    from Cons.IH [OF r] structLogEntry_fields(8) [OF e] False l show ?thesis by simp
  qed
qed

lemma structLogsLoop_no_memory:
  "\<not> EnableMemory cfg \<Longrightarrow> \<exists>logs. structLogsLoop spare cfg mem steps = Done (mem, logs)"
proof (induction steps)
  case Nil
  then show ?case by simp
next
  case (Cons s rest)
  from Cons obtain logs where r: "structLogsLoop spare cfg mem rest = Done (mem, logs)" by blast
  from Cons.prems obtain e where e: "structLogEntry spare cfg mem s = Done (mem, e)"
    using structLogEntry_no_memory by blast
  show ?case using r e by simp
qed


section \<open>The memory image during a pass\<close>

lemma length_Resize: "length (store (Resize m n)) = n"
  by (simp add: Resize_def)

lemma Set_Done_iff:
  "(\<exists>m'. Set m off (length v) v = Done m') \<longleftrightarrow> off + length v \<le> length (store m)"
  by (simp add: Set_def)

lemma length_Set:
  "Set m off (length v) v = Done m' \<Longrightarrow> length (store m') = length (store m)"
  by (auto simp: Set_def split: if_splits)

lemma memoryField_Done:
  assumes "memoryField spare mem s = Done (mem', arr)"
  shows "writeFits s"
    and "length (store mem') = (if sint (MemorySize s) > 0 then unat (MemorySize s) else 0)"
    and "\<not> sint (MemorySize s) > 0 \<Longrightarrow> mem' = NewMemory \<and> arr = []"
proof -
  let ?r = "Resize mem (unat (MemorySize s))"
  show "writeFits s"
  proof (cases "Memory s = []")
    case True
    then show ?thesis by (simp add: writeFits_def)
  next
    case False
    with assms obtain w where
      "Set ?r (unat (MemoryOffset s)) (length (Memory s)) (Memory s) = Done w"
      by (auto simp: memoryField_def Let_def split: outcome.splits)
    then have "unat (MemoryOffset s) + length (Memory s) \<le> length (store ?r)"
      using Set_Done_iff by blast
    then show ?thesis by (simp add: writeFits_def length_Resize)
  qed
  from assms obtain w where
    w: "(if length (Memory s) > 0
         then Set ?r (unat (MemoryOffset s)) (length (Memory s)) (Memory s)
         else Done ?r) = Done w"
    and rest: "(if sint (MemorySize s) > 0 then
            (case memoryArrayFrom (Data w) (spare (Data w)) 0 of
               Panic p \<Rightarrow> Panic p
             | Done memoryArray \<Rightarrow> Done (w, memoryArray))
          else Done (NewMemory, [])) = Done (mem', arr)"
    by (auto simp: memoryField_def Let_def split: outcome.splits)
  have lw: "length (store w) = unat (MemorySize s)"
    using w length_Set [of ?r "unat (MemoryOffset s)" "Memory s" w]
    by (auto simp: length_Resize split: if_splits)
  show "length (store mem') = (if sint (MemorySize s) > 0 then unat (MemorySize s) else 0)"
    using rest lw by (auto simp: NewMemory_def split: if_splits outcome.splits)
  show "\<not> sint (MemorySize s) > 0 \<Longrightarrow> mem' = NewMemory \<and> arr = []"
    using rest by (auto split: if_splits)
qed

lemma memoryField_zero:
  assumes "MemorySize s = 0" "Memory s = []"
  shows "memoryField spare mem s = Done (NewMemory, [])"
  using assms by (simp add: memoryField_def Let_def)

lemma nonneg_size:
  "0 \<le> sint (w :: 64 word) \<Longrightarrow> (if sint w > 0 then unat w else 0) = unat w"
proof -
  assume a: "0 \<le> sint w"
  show ?thesis
  proof (cases "sint w > 0")
    case True
    then show ?thesis by simp
  next
    case False
    with a have "sint w = 0" by simp
    then have "w = 0" by (simp add: signed_eq_0_iff)
    then show ?thesis by simp
  qed
qed

lemma structLogEntry_memory:
  assumes "EnableMemory cfg" "structLogEntry spare cfg mem s = Done (mem', e)"
  shows "\<exists>arr. memoryField spare mem s = Done (mem', arr) \<and> resMemory e = Some arr"
  using assms by (auto simp: structLogEntry_def Let_def split: outcome.splits prod.splits)

lemma structLogsLoop_memory:
  assumes "EnableMemory cfg"
  shows "structLogsLoop spare cfg mem steps = Done (final, logs) \<Longrightarrow>
     (\<forall>s \<in> set steps. 0 \<le> sint (MemorySize s)) \<Longrightarrow>
     length (store final) =
        (case filter (\<lambda>s. \<not> ignoredStep s) steps of
           [] \<Rightarrow> length (store mem)
         | s # ss \<Rightarrow> unat (MemorySize (last (s # ss))))
     \<and> (\<forall>s \<in> set steps. \<not> ignoredStep s \<longrightarrow> writeFits s)"
proof (induction steps arbitrary: mem logs)
  case Nil
  then show ?case by simp
next
  case (Cons s rest)
  show ?case
  proof (cases "ignoredStep s")
    case True
    with Cons show ?thesis by simp
  next
    case False
    from structLogsLoop_Cons_kept [OF False Cons.prems(1)] obtain mem' e logs' where
      e: "structLogEntry spare cfg mem s = Done (mem', e)"
      and r: "structLogsLoop spare cfg mem' rest = Done (final, logs')" and l: "logs = e # logs'"
      by blast
    from structLogEntry_memory [OF assms e] obtain arr where
      mf: "memoryField spare mem s = Done (mem', arr)" by blast
    have nn: "0 \<le> sint (MemorySize s)" using Cons.prems(2) by simp
    have len: "length (store mem') = unat (MemorySize s)"
      using memoryField_Done(2) [OF mf] nonneg_size [OF nn] by simp
    have fit: "writeFits s" using memoryField_Done(1) [OF mf] .
    from Cons.IH [OF r] Cons.prems(2) have ih:
      "length (store final) =
        (case filter (\<lambda>s. \<not> ignoredStep s) rest of
           [] \<Rightarrow> length (store mem')
         | s # ss \<Rightarrow> unat (MemorySize (last (s # ss))))"
      "\<forall>s \<in> set rest. \<not> ignoredStep s \<longrightarrow> writeFits s" by simp_all
    show ?thesis
    proof (cases "filter (\<lambda>s. \<not> ignoredStep s) rest")
      case Nil
      with ih len fit False show ?thesis by simp
    next
      case (Cons a as)
      with ih len fit False show ?thesis by simp
    qed
  qed
qed


lemma memoryField_total:
  assumes "writeFits s" "32 dvd unat (MemorySize s)"
  shows "\<exists>mem' arr. memoryField spare mem s = Done (mem', arr)"
proof -
  let ?r = "Resize mem (unat (MemorySize s))"
  have "\<exists>w. (if length (Memory s) > 0
         then Set ?r (unat (MemoryOffset s)) (length (Memory s)) (Memory s)
         else Done ?r) = Done w"
  proof (cases "Memory s = []")
    case True
    then show ?thesis by simp
  next
    case False
    with assms(1) have "unat (MemoryOffset s) + length (Memory s) \<le> length (store ?r)"
      by (simp add: writeFits_def length_Resize)
    then show ?thesis using False Set_Done_iff [of ?r "unat (MemoryOffset s)" "Memory s"] by simp
  qed
  then obtain w where w: "(if length (Memory s) > 0
         then Set ?r (unat (MemoryOffset s)) (length (Memory s)) (Memory s)
         else Done ?r) = Done w" by blast
  have lw: "length (store w) = unat (MemorySize s)"
    using w length_Set [of ?r "unat (MemoryOffset s)" "Memory s" w]
    by (auto simp: length_Resize split: if_splits)
  from assms(2) obtain k where "unat (MemorySize s) = 32 * k" by (auto simp: dvd_def)
  with lw have "0 + 32 * k = length (Data w)" by (simp add: Data_def)
  from memoryArrayFrom_total [OF this] obtain arr where
    "memoryArrayFrom (Data w) (spare (Data w)) 0 = Done arr" by blast
  with w show ?thesis by (auto simp: memoryField_def Let_def)
qed

lemma structLogEntry_total:
  assumes "writeFits s" "32 dvd unat (MemorySize s)"
  shows "\<exists>mem' e. structLogEntry spare cfg mem s = Done (mem', e)"
proof (cases "EnableMemory cfg")
  case False
  then show ?thesis by (simp add: structLogEntry_def Let_def)
next
  case True
  from memoryField_total [OF assms] obtain mem' arr where
    "memoryField spare mem s = Done (mem', arr)" by blast
  with True show ?thesis by (simp add: structLogEntry_def Let_def)
qed

lemma structLogsLoop_total:
  "(\<forall>s \<in> set steps. \<not> ignoredStep s \<longrightarrow> writeFits s \<and> 32 dvd unat (MemorySize s)) \<Longrightarrow>
     \<exists>final logs. structLogsLoop spare cfg mem steps = Done (final, logs)"
proof (induction steps arbitrary: mem)
  case Nil
  then show ?case by simp
next
  case (Cons s rest)
  show ?case
  proof (cases "ignoredStep s")
    case True
    with Cons show ?thesis by simp
  next
    case False
    with Cons.prems have "writeFits s" "32 dvd unat (MemorySize s)" by simp_all
    from structLogEntry_total [OF this] obtain mem' e where
      e: "structLogEntry spare cfg mem s = Done (mem', e)" by blast
    from Cons.IH [of mem'] Cons.prems obtain final logs where
      "structLogsLoop spare cfg mem' rest = Done (final, logs)" by auto
    with e False show ?thesis by simp
  qed
qed

lemma structLogsLoop_append:
  "structLogsLoop spare cfg mem (xs @ ys) =
     (case structLogsLoop spare cfg mem xs of
        Panic p \<Rightarrow> Panic p
      | Done (mid, logs1) \<Rightarrow>
          (case structLogsLoop spare cfg mid ys of
             Panic p \<Rightarrow> Panic p
           | Done (final, logs2) \<Rightarrow> Done (final, logs1 @ logs2)))"
proof (induction xs arbitrary: mem)
  case Nil
  show ?case by (simp split: outcome.splits prod.splits)
next
  case (Cons s rest)
  show ?case
    by (simp add: Cons.IH split: outcome.splits prod.splits)
qed

lemma structLogEntry_zero:
  assumes "EnableMemory cfg" "MemorySize s = 0" "Memory s = []"
  shows "\<exists>e. resMemory e = Some [] \<and> structLogEntry spare cfg mem s = Done (NewMemory, e)"
  using assms by (simp add: structLogEntry_def Let_def memoryField_zero)


lemmas example_defs = memoryConfig_def defaultTraceConfig_def plainStep_def step70_def step32_def
  stopStep_def readStep_def resetStep_def overflowStep_def strayWriteStep_def storageStep_def
  spare80_def


section \<open>Entries of the structured log\<close>

lemma buildStructLogs_Done_iff:
  "buildStructLogs spare steps cfg = Done logs \<longleftrightarrow>
     (\<exists>final. structLogsLoop spare cfg NewMemory steps = Done (final, logs))"
  by (auto simp: buildStructLogs_def split: outcome.splits prod.splits)

text \<open>
  C7, as the code has it. Whenever the formatting pass returns, its entries are, in the
  original order, exactly one per step that is not a \<open>STOP\<close> at program counter 0, each
  carrying that step's counter, renamed opcode, gas, gas cost, depth, error text and
  refund; steps with opcode \<open>STOP\<close> and program counter 0 leave no entry. The pass returns
  for every step sequence when \<open>enableMemory\<close> is off, and with \<open>enableMemory\<close> on when
  every step's write fits the memory size it reports and the sizes are multiples of 32.
\<close>

theorem buildStructLogs_one_entry_per_kept_step:
  "(\<forall>structLogs. buildStructLogs spare steps cfg = Done structLogs \<longrightarrow>
      map (\<lambda>e. (resPc e, resOp e, resGas e, resGasCost e, resDepth e, resError e,
                 resRefundCounter e)) structLogs
        = map (\<lambda>s. (Pc s, renamedOp (Op s), Gas s, GasCost s, Depth s,
                     (case Err s of None \<Rightarrow> [] | Some msg \<Rightarrow> msg), RefundCounter s))
            (filter (\<lambda>s. \<not> (Op s = ''STOP'' \<and> Pc s = 0)) steps))
   \<and> ((\<not> EnableMemory cfg \<or> (\<forall>s \<in> set steps. writeFits s \<and> 32 dvd unat (MemorySize s)))
        \<longrightarrow> (\<exists>structLogs. buildStructLogs spare steps cfg = Done structLogs))"
proof (intro conjI allI impI)
  fix structLogs
  assume "buildStructLogs spare steps cfg = Done structLogs"
  then obtain final where "structLogsLoop spare cfg NewMemory steps = Done (final, structLogs)"
    using buildStructLogs_Done_iff by blast
  from structLogsLoop_entries [OF this]
  show "map (\<lambda>e. (resPc e, resOp e, resGas e, resGasCost e, resDepth e, resError e,
                 resRefundCounter e)) structLogs
        = map (\<lambda>s. (Pc s, renamedOp (Op s), Gas s, GasCost s, Depth s,
                     (case Err s of None \<Rightarrow> [] | Some msg \<Rightarrow> msg), RefundCounter s))
            (filter (\<lambda>s. \<not> (Op s = ''STOP'' \<and> Pc s = 0)) steps)"
    by (simp add: ignoredStep_iff)
next
  assume a: "\<not> EnableMemory cfg \<or> (\<forall>s \<in> set steps. writeFits s \<and> 32 dvd unat (MemorySize s))"
  have "\<exists>final logs. structLogsLoop spare cfg NewMemory steps = Done (final, logs)"
  proof (cases "EnableMemory cfg")
    case False
    then show ?thesis using structLogsLoop_no_memory by blast
  next
    case True
    with a have "\<forall>s \<in> set steps. \<not> ignoredStep s \<longrightarrow> writeFits s \<and> 32 dvd unat (MemorySize s)"
      by simp
    from structLogsLoop_total [OF this] show ?thesis .
  qed
  then show "\<exists>structLogs. buildStructLogs spare steps cfg = Done structLogs"
    using buildStructLogs_Done_iff by blast
qed

theorem buildStructLogs_one_entry_per_kept_step_witness:
  "\<exists>structLogs. buildStructLogs spare80 [step32, stopStep, readStep] memoryConfig = Done structLogs
     \<and> map (\<lambda>e. (resPc e, resOp e)) structLogs = [(1, ''MSTORE''), (1, ''MLOAD'')]"
proof -
  note t = buildStructLogs_one_entry_per_kept_step
             [of spare80 "[step32, stopStep, readStep]" memoryConfig]
  note t1 = t [THEN conjunct1, rule_format]
  note t2 = t [THEN conjunct2, rule_format]
  have "\<exists>structLogs. buildStructLogs spare80 [step32, stopStep, readStep] memoryConfig
          = Done structLogs"
    by (rule t2) (simp add: example_defs writeFits_def)
  then obtain structLogs where
    d: "buildStructLogs spare80 [step32, stopStep, readStep] memoryConfig = Done structLogs" ..
  have "map (\<lambda>e. (resPc e, resOp e, resGas e, resGasCost e, resDepth e, resError e,
                 resRefundCounter e)) structLogs
        = [(1, ''MSTORE'', 100, 3, 1, [], 0), (1, ''MLOAD'', 100, 3, 1, [], 0)]"
    using t1 [OF d] by (simp add: example_defs renamedOp_def)
  then have m: "map (\<lambda>e. (resPc e, resOp e)) structLogs = [(1, ''MSTORE''), (1, ''MLOAD'')]"
    by (auto simp: map_eq_Cons_conv)
  show ?thesis by (rule exI [of _ structLogs]) (simp only: d m simp_thms)
qed

text \<open>
  C7 as stated fails: with \<open>enableMemory\<close> on, a step that is no \<open>STOP\<close> and whose write
  lies outside the memory size it reports ends the pass in the precondition failure of the
  memory image, so the step produces no entry.
\<close>

theorem stray_write_yields_no_entry:
  "\<not> (Op strayWriteStep = ''STOP'' \<and> Pc strayWriteStep = 0)
   \<and> buildStructLogs spare80 [strayWriteStep] memoryConfig = Panic InvalidMemory"
  by (simp add: example_defs buildStructLogs_def ignoredStep_def structLogEntry_def
      memoryField_def Resize_def NewMemory_def Set_def)



section \<open>The storage field\<close>

lemma map_of_storageFold:
  "map_of (fold (\<lambda>(storageKey, storageValue) storage.
             AList.update (EncodeToString storageKey) (EncodeToString storageValue) storage) kvs al)
     = map_of (rev (map (\<lambda>(k, v). (EncodeToString k, EncodeToString v)) kvs) @ al)"
proof (induction kvs arbitrary: al)
  case Nil
  show ?case by simp
next
  case (Cons kv kvs)
  obtain k v where kv: "kv = (k, v)" by (cases kv)
  have "map_of (AList.update (EncodeToString k) (EncodeToString v) al)
          = map_of ((EncodeToString k, EncodeToString v) # al)"
    by (simp add: update_conv')
  then show ?case
    by (simp add: kv Cons.IH map_of_append [of _ "AList.update _ _ _"] map_of_append [of _ "_ # _"]
        del: map_of.simps map_of_append)
qed

lemma map_of_storageMap:
  "map_of (storageMap kvs) = map_of (rev (map (\<lambda>(k, v). (EncodeToString k, EncodeToString v)) kvs))"
  using map_of_storageFold [of kvs "[]"] by (simp add: storageMap_def)

lemma fst_encoded: "map fst (map (\<lambda>(k, v). (EncodeToString k, EncodeToString v)) kvs)
    = map EncodeToString (map fst kvs)"
  by (induction kvs) auto

lemma storageMap_lookup:
  assumes "distinct (map fst kvs)"
  shows "map_of (storageMap kvs) k = Some v \<longleftrightarrow>
           (\<exists>(key, val) \<in> set kvs. k = EncodeToString key \<and> v = EncodeToString val)"
proof -
  let ?enc = "map (\<lambda>(k, v). (EncodeToString k, EncodeToString v)) kvs"
  have inj: "inj_on EncodeToString (set (map fst kvs))"
    by (rule inj_onI) (rule EncodeToString_inj)
  have "distinct (map EncodeToString (map fst kvs))"
    by (rule distinct_map [THEN iffD2]) (use assms inj in blast)
  then have "distinct (map fst ?enc)"
    by (simp only: fst_encoded)
  then have "distinct (map fst (rev ?enc))" by (simp add: rev_map [symmetric])
  then have "map_of (rev ?enc) k = Some v \<longleftrightarrow> (k, v) \<in> set (rev ?enc)"
    by (rule map_of_eq_Some_iff)
  also have "\<dots> \<longleftrightarrow> (\<exists>(key, val) \<in> set kvs. k = EncodeToString key \<and> v = EncodeToString val)"
    by auto
  finally show ?thesis by (simp add: map_of_storageMap)
qed

lemma storageMap_nonempty: "kvs \<noteq> [] \<Longrightarrow> storageMap kvs \<noteq> []"
proof
  let ?enc = "map (\<lambda>(k, v). (EncodeToString k, EncodeToString v)) kvs"
  assume ne: "kvs \<noteq> []" and em: "storageMap kvs = []"
  from ne obtain k v rest where "kvs = (k, v) # rest" by (cases kvs) auto
  then have "EncodeToString k \<in> fst ` set (rev ?enc)" by force
  then have "map_of (rev ?enc) (EncodeToString k) \<noteq> None"
    by (simp only: map_of_eq_None_iff not_not)
  then have "map_of (storageMap kvs) (EncodeToString k) \<noteq> None"
    by (simp add: map_of_storageMap)
  with em show False by simp
qed

text \<open>
  C9. In every pass that returns, the entry of each formatted step has its storage field
  present exactly when \<open>disableStorage\<close> is false and the step has at least one storage
  write, and absent otherwise; a present field is never the empty map, and (the keys of
  the step's Go map being pairwise distinct) it sends the hex encoding of each key to the
  hex encoding of its value and has no other entry.
\<close>

theorem storage_field_present_iff:
  assumes "buildStructLogs spare steps cfg = Done structLogs"
  shows "map resStorage structLogs
           = map (\<lambda>s. if \<not> DisableStorage cfg \<and> Storage s \<noteq> []
                       then Some (storageMap (Storage s)) else None)
               (filter (\<lambda>s. \<not> (Op s = ''STOP'' \<and> Pc s = 0)) steps)
         \<and> (\<forall>s \<in> set steps. Storage s \<noteq> [] \<longrightarrow> storageMap (Storage s) \<noteq> [])
         \<and> (\<forall>s \<in> set steps. distinct (map fst (Storage s)) \<longrightarrow>
               (\<forall>k v. map_of (storageMap (Storage s)) k = Some v \<longleftrightarrow>
                  (\<exists>(key, val) \<in> set (Storage s).
                      k = EncodeToString key \<and> v = EncodeToString val)))"
proof (intro conjI ballI impI allI)
  from assms obtain final where "structLogsLoop spare cfg NewMemory steps = Done (final, structLogs)"
    using buildStructLogs_Done_iff by blast
  from structLogsLoop_storage [OF this]
  show "map resStorage structLogs
           = map (\<lambda>s. if \<not> DisableStorage cfg \<and> Storage s \<noteq> []
                       then Some (storageMap (Storage s)) else None)
               (filter (\<lambda>s. \<not> (Op s = ''STOP'' \<and> Pc s = 0)) steps)"
    by (simp add: ignoredStep_iff storageField_def cong: map_cong)
next
  fix s :: StructLog assume "Storage s \<noteq> []"
  then show "storageMap (Storage s) \<noteq> []" by (rule storageMap_nonempty)
next
  fix s :: StructLog and k v assume "distinct (map fst (Storage s))"
  then show "map_of (storageMap (Storage s)) k = Some v \<longleftrightarrow>
                  (\<exists>(key, val) \<in> set (Storage s).
                      k = EncodeToString key \<and> v = EncodeToString val)"
    by (rule storageMap_lookup)
qed

theorem storage_field_present_iff_witness:
  "\<exists>structLogs. buildStructLogs spare80 [storageStep, stopStep, plainStep] defaultTraceConfig
        = Done structLogs
     \<and> map (\<lambda>e. map_option (\<lambda>m. map_of m ''0001'') (resStorage e)) structLogs
          = [Some (Some ''0002''), None]"
proof -
  have "\<exists>structLogs. buildStructLogs spare80 [storageStep, stopStep, plainStep] defaultTraceConfig
          = Done structLogs"
    by (simp add: example_defs buildStructLogs_def ignoredStep_def structLogEntry_def)
  then obtain structLogs where
    d: "buildStructLogs spare80 [storageStep, stopStep, plainStep] defaultTraceConfig
          = Done structLogs" ..
  note t = storage_field_present_iff [OF d]
  have dist: "distinct (map fst (Storage storageStep))" by (simp add: example_defs)
  have "map_of (storageMap (Storage storageStep)) ''0001'' = Some ''0002''"
    using t [THEN conjunct2, THEN conjunct2, rule_format, OF _ dist, of "''0001''" "''0002''"]
    by (simp add: example_defs EncodeToString_def hexByte_def hextable_def)
  moreover have "map resStorage structLogs = [Some (storageMap (Storage storageStep)), None]"
    using t [THEN conjunct1] by (simp add: example_defs)
  ultimately have
    m: "map (\<lambda>e. map_option (\<lambda>m. map_of m ''0001'') (resStorage e)) structLogs
          = [Some (Some ''0002''), None]"
    by (auto simp: map_eq_Cons_conv)
  show ?thesis by (rule exI [of _ structLogs]) (simp only: d m simp_thms)
qed



section \<open>The memory field across steps\<close>

text \<open>
  C3, as the code has it. In a pass with \<open>enableMemory\<close> on that returns for steps
  reporting non-negative memory sizes, the image left by the pass has the length reported
  by the last step that was not skipped (0 if there is none), and every write of a step
  that was not skipped lay inside the image as resized for that step, whatever the image
  \<open>m\<close> before the resize. The theorem holds for every step sequence, so for every prefix
  of a pass.
\<close>

theorem memory_image_follows_reported_size:
  assumes "EnableMemory cfg"
    and "structLogsLoop spare cfg NewMemory steps = Done (final, structLogs)"
    and "\<forall>s \<in> set steps. 0 \<le> sint (MemorySize s)"
  shows "length (store final) =
           (case filter (\<lambda>s. \<not> (Op s = ''STOP'' \<and> Pc s = 0)) steps of
              [] \<Rightarrow> 0
            | s # ss \<Rightarrow> unat (MemorySize (last (s # ss))))
         \<and> (\<forall>s \<in> set steps. \<not> (Op s = ''STOP'' \<and> Pc s = 0) \<longrightarrow>
               (Memory s = [] \<or>
                unat (MemoryOffset s) + length (Memory s)
                  \<le> length (store (Resize m (unat (MemorySize s))))))"
proof -
  from structLogsLoop_memory [OF assms]
  have "length (store final) =
        (case filter (\<lambda>s. \<not> ignoredStep s) steps of
           [] \<Rightarrow> length (store NewMemory)
         | s # ss \<Rightarrow> unat (MemorySize (last (s # ss))))"
    and f: "\<forall>s \<in> set steps. \<not> ignoredStep s \<longrightarrow> writeFits s" by simp_all
  then have "length (store final) =
           (case filter (\<lambda>s. \<not> (Op s = ''STOP'' \<and> Pc s = 0)) steps of
              [] \<Rightarrow> 0
            | s # ss \<Rightarrow> unat (MemorySize (last (s # ss))))"
    by (simp add: ignoredStep_iff NewMemory_def split: list.splits)
  moreover from f have "\<forall>s \<in> set steps. \<not> (Op s = ''STOP'' \<and> Pc s = 0) \<longrightarrow>
               (Memory s = [] \<or>
                unat (MemoryOffset s) + length (Memory s)
                  \<le> length (store (Resize m (unat (MemorySize s)))))"
    by (simp add: ignoredStep_iff writeFits_def length_Resize)
  ultimately show ?thesis by (rule conjI)
qed

theorem memory_image_follows_reported_size_witness:
  "\<exists>final structLogs.
      structLogsLoop spare80 memoryConfig NewMemory [step32, stopStep, readStep]
        = Done (final, structLogs)
      \<and> length (store final) = 32"
proof -
  have "\<exists>final structLogs.
      structLogsLoop spare80 memoryConfig NewMemory [step32, stopStep, readStep]
        = Done (final, structLogs)"
    by (rule structLogsLoop_total) (simp add: example_defs writeFits_def)
  then obtain final structLogs where
    d: "structLogsLoop spare80 memoryConfig NewMemory [step32, stopStep, readStep]
          = Done (final, structLogs)" by (elim exE)
  have en: "EnableMemory memoryConfig" by (simp add: example_defs)
  have nn: "\<forall>s \<in> set [step32, stopStep, readStep]. 0 \<le> sint (MemorySize s)"
    by (simp add: example_defs)
  have "length (store final) = 32"
    using memory_image_follows_reported_size [OF en d nn, THEN conjunct1]
    by (simp add: example_defs)
  with d show ?thesis by (intro exI conjI)
qed

text \<open>
  C3 as stated fails for arbitrary step sequences: nothing in the formatter compares a
  step's offset and payload with the memory size it reports. Here the image is resized to
  32 bytes and the write is asked for the range from 32 to 64; the image answers with its
  precondition failure.
\<close>

theorem write_beyond_reported_size:
  "EnableMemory memoryConfig \<and> \<not> (Op overflowStep = ''STOP'' \<and> Pc overflowStep = 0)
   \<and> length (store (Resize NewMemory (unat (MemorySize overflowStep)))) = 32
   \<and> unat (MemoryOffset overflowStep) + length (Memory overflowStep) = 64
   \<and> buildStructLogs spare80 [overflowStep] memoryConfig = Panic InvalidMemory"
  by (simp add: example_defs buildStructLogs_def ignoredStep_def structLogEntry_def
      memoryField_def Resize_def NewMemory_def Set_def)

text \<open>
  C8, as the code has it. With \<open>enableMemory\<close> on, a step that is not skipped, reports
  memory size 0 and carries no write gets an entry whose memory list is empty, and the
  steps after it are formatted as a pass of their own, from an empty image: the log of
  \<open>before @ s # after\<close> is the log of \<open>before\<close>, that entry, and the log of \<open>after\<close>.
\<close>

theorem size_zero_step_resets_memory:
  assumes "EnableMemory cfg" and "\<not> (Op s = ''STOP'' \<and> Pc s = 0)"
    and "MemorySize s = 0" and "Memory s = []"
  shows "\<exists>e. resMemory e = Some []
           \<and> buildStructLogs spare (before @ s # after) cfg =
               (case buildStructLogs spare before cfg of
                  Panic p \<Rightarrow> Panic p
                | Done logs1 \<Rightarrow>
                    (case buildStructLogs spare after cfg of
                       Panic p \<Rightarrow> Panic p
                     | Done logs2 \<Rightarrow> Done (logs1 @ e # logs2)))"
proof -
  from assms(2) have k: "\<not> ignoredStep s" by (simp add: ignoredStep_iff)
  have "\<exists>e. resMemory e = Some [] \<and> (\<forall>mem. structLogEntry spare cfg mem s = Done (NewMemory, e))"
    using assms(1,3,4) by (simp add: structLogEntry_def Let_def memoryField_zero)
  then obtain e where e: "resMemory e = Some []"
    and z: "\<And>mem. structLogEntry spare cfg mem s = Done (NewMemory, e)" by blast
  have step: "\<And>mem. structLogsLoop spare cfg mem (s # after) =
      (case structLogsLoop spare cfg NewMemory after of
         Panic p \<Rightarrow> Panic p
       | Done (final, logs) \<Rightarrow> Done (final, e # logs))"
    using k by (simp add: z)
  have "buildStructLogs spare (before @ s # after) cfg =
               (case buildStructLogs spare before cfg of
                  Panic p \<Rightarrow> Panic p
                | Done logs1 \<Rightarrow>
                    (case buildStructLogs spare after cfg of
                       Panic p \<Rightarrow> Panic p
                     | Done logs2 \<Rightarrow> Done (logs1 @ e # logs2)))"
    by (simp add: buildStructLogs_def structLogsLoop_append step del: structLogsLoop.simps
        split: outcome.splits prod.splits)
  with e show ?thesis by blast
qed

theorem size_zero_step_resets_memory_witness:
  "\<exists>structLogs. buildStructLogs spare80 [step32, resetStep, readStep] memoryConfig = Done structLogs
     \<and> map resMemory structLogs =
         [Some [''ffffffffffffffffffffffffffffffffffffffffffffffffffffffffffffffff''],
          Some [],
          Some [''0000000000000000000000000000000000000000000000000000000000000000'']]"
proof -
  have a: "EnableMemory memoryConfig" "\<not> (Op resetStep = ''STOP'' \<and> Pc resetStep = 0)"
    "MemorySize resetStep = 0" "Memory resetStep = []"
    by (simp_all add: example_defs)
  from size_zero_step_resets_memory [OF a, of spare80 "[step32]" "[readStep]"]
  obtain e where e: "resMemory e = Some []"
    and b: "buildStructLogs spare80 ([step32] @ resetStep # [readStep]) memoryConfig =
               (case buildStructLogs spare80 [step32] memoryConfig of
                  Panic p \<Rightarrow> Panic p
                | Done logs1 \<Rightarrow>
                    (case buildStructLogs spare80 [readStep] memoryConfig of
                       Panic p \<Rightarrow> Panic p
                     | Done logs2 \<Rightarrow> Done (logs1 @ e # logs2)))" by blast
  have "(case buildStructLogs spare80 [step32] memoryConfig of
           Panic p \<Rightarrow> False
         | Done l1 \<Rightarrow> map resMemory l1 =
             [Some [''ffffffffffffffffffffffffffffffffffffffffffffffffffffffffffffffff'']])"
    by code_simp
  then obtain l1 where l: "buildStructLogs spare80 [step32] memoryConfig = Done l1"
    "map resMemory l1 = [Some [''ffffffffffffffffffffffffffffffffffffffffffffffffffffffffffffffff'']]"
    by (auto split: outcome.splits)
  have "(case buildStructLogs spare80 [readStep] memoryConfig of
           Panic p \<Rightarrow> False
         | Done l2 \<Rightarrow> map resMemory l2 =
             [Some [''0000000000000000000000000000000000000000000000000000000000000000'']])"
    by code_simp
  then obtain l2 where r: "buildStructLogs spare80 [readStep] memoryConfig = Done l2"
    "map resMemory l2 = [Some [''0000000000000000000000000000000000000000000000000000000000000000'']]"
    by (auto split: outcome.splits)
  from b have "buildStructLogs spare80 [step32, resetStep, readStep] memoryConfig
                 = Done (l1 @ e # l2)"
    by (simp add: l(1) r(1))
  moreover have "map resMemory (l1 @ e # l2) =
         [Some [''ffffffffffffffffffffffffffffffffffffffffffffffffffffffffffffffff''],
          Some [],
          Some [''0000000000000000000000000000000000000000000000000000000000000000'']]"
    by (simp add: l(2) r(2) e)
  ultimately show ?thesis by (intro exI conjI)
qed

text \<open>
  C8 as stated fails for a step that is skipped: a \<open>STOP\<close> at program counter 0 reporting
  memory size 0 gets no entry and leaves the image alone, so the step after it still shows
  the 32 bytes written before.
\<close>

theorem skipped_stop_keeps_memory:
  "MemorySize stopStep = 0 \<and>
   (case buildStructLogs spare80 [step32, stopStep, readStep] memoryConfig of
      Panic p \<Rightarrow> False
    | Done logs \<Rightarrow> map resMemory logs =
        [Some [''ffffffffffffffffffffffffffffffffffffffffffffffffffffffffffffffff''],
         Some [''ffffffffffffffffffffffffffffffffffffffffffffffffffffffffffffffff'']])"
  by code_simp



section \<open>Tracer validation\<close>

lemma HasPrefix_iff: "HasPrefix s p \<longleftrightarrow> (\<exists>q. s = p @ q)"
  by (induction s p rule: HasPrefix.induct) auto

lemma Contains_iff: "Contains s substr \<longleftrightarrow> (\<exists>p q. s = p @ substr @ q)"
proof (induction s)
  case Nil
  show ?case by auto
next
  case (Cons c s)
  have "(\<exists>p q. c # s = p @ substr @ q) \<longleftrightarrow>
          (\<exists>q. c # s = substr @ q) \<or> (\<exists>p q. s = p @ substr @ q)"
  proof
    assume "\<exists>p q. c # s = p @ substr @ q"
    then obtain p q where e: "c # s = p @ substr @ q" by blast
    show "(\<exists>q. c # s = substr @ q) \<or> (\<exists>p q. s = p @ substr @ q)"
    proof (cases p)
      case Nil
      with e show ?thesis by auto
    next
      case (Cons a p')
      with e have "s = p' @ substr @ q" by simp
      then show ?thesis by blast
    qed
  next
    assume "(\<exists>q. c # s = substr @ q) \<or> (\<exists>p q. s = p @ substr @ q)"
    then show "\<exists>p q. c # s = p @ substr @ q"
    proof
      assume "\<exists>q. c # s = substr @ q"
      then obtain q where "c # s = [] @ substr @ q" by auto
      then show ?thesis by blast
    next
      assume "\<exists>p q. s = p @ substr @ q"
      then obtain p q where "c # s = (c # p) @ substr @ q" by auto
      then show ?thesis by blast
    qed
  qed
  then show ?case by (simp add: Cons.IH HasPrefix_iff)
qed

lemma invalidTracer_iff:
  "invalidTracer traceCfg \<longleftrightarrow> \<not> validTracerSpec (Tracer traceCfg)"
  by (auto simp: invalidTracer_def validTracerSpec_def isBuiltInTracer_def isJSCustomTracer_def
      Contains_iff split: option.splits)

lemma buildTraceTransaction_valid:
  assumes "\<not> invalidTracer traceCfg" "traceCfg = (case cfg of None \<Rightarrow> defaultTraceConfig | Some c \<Rightarrow> c)"
  shows "\<exists>calls r. buildTraceTransaction spare st hash cfg
                     = (CallDebugTransaction hash traceCfg # calls, r)
                   \<and> r \<noteq> Done (None, Some (RPCError DefaultErrorCode ''invalid tracer''))"
  using assms
  by (auto simp: buildTraceTransaction_def Let_def rpcErrorResponse_def NewRPCError_def
      split: sum.splits outcome.splits)

text \<open>
  C6. With \<open>traceCfg\<close> the configuration in force (the default one when none is given): a
  tracer that is not valid in the sense of the specification makes \<open>buildTraceTransaction\<close>
  return the invalid-tracer error without a single request to a collaborator; a valid one
  makes it start with the trace-execution request and never return that error; and the
  built-in names are exactly the four listed.
\<close>

theorem tracer_accepted_iff_valid:
  assumes "traceCfg = (case cfg of None \<Rightarrow> defaultTraceConfig | Some c \<Rightarrow> c)"
  shows "(\<not> validTracerSpec (Tracer traceCfg) \<longrightarrow>
            buildTraceTransaction spare st hash cfg
              = ([], Done (None, Some (RPCError DefaultErrorCode ''invalid tracer''))))
         \<and> (validTracerSpec (Tracer traceCfg) \<longrightarrow>
              (\<exists>calls r. buildTraceTransaction spare st hash cfg
                            = (CallDebugTransaction hash traceCfg # calls, r)
                          \<and> r \<noteq> Done (None, Some (RPCError DefaultErrorCode ''invalid tracer''))))
         \<and> (\<forall>name. isBuiltInTracer name \<longleftrightarrow>
               name \<in> {''callTracer'', ''4byteTracer'', ''prestateTracer'', ''noopTracer''})"
proof (intro conjI impI allI)
  assume "\<not> validTracerSpec (Tracer traceCfg)"
  then have "invalidTracer traceCfg" by (simp add: invalidTracer_iff)
  then show "buildTraceTransaction spare st hash cfg
              = ([], Done (None, Some (RPCError DefaultErrorCode ''invalid tracer'')))"
    using assms by (simp add: buildTraceTransaction_def rpcErrorResponse_def NewRPCError_def)
next
  assume "validTracerSpec (Tracer traceCfg)"
  then have "\<not> invalidTracer traceCfg" by (simp add: invalidTracer_iff)
  from buildTraceTransaction_valid [OF this assms]
  show "\<exists>calls r. buildTraceTransaction spare st hash cfg
                            = (CallDebugTransaction hash traceCfg # calls, r)
                          \<and> r \<noteq> Done (None, Some (RPCError DefaultErrorCode ''invalid tracer''))" .
next
  fix name
  show "isBuiltInTracer name \<longleftrightarrow>
               name \<in> {''callTracer'', ''4byteTracer'', ''prestateTracer'', ''noopTracer''}"
    by (simp add: isBuiltInTracer_def)
qed

theorem tracer_accepted_iff_valid_witness:
  "buildTraceTransaction spare80 exampleState [1] (Some bogusConfig)
     = ([], Done (None, Some (RPCError DefaultErrorCode ''invalid tracer'')))
   \<and> (\<exists>calls r. buildTraceTransaction spare80 exampleState [1] None
                   = (CallDebugTransaction [1] defaultTraceConfig # calls, r))"
proof -
  have c1: "bogusConfig = (case Some bogusConfig of None \<Rightarrow> defaultTraceConfig | Some c \<Rightarrow> c)"
    by simp
  have c2: "defaultTraceConfig = (case None of None \<Rightarrow> defaultTraceConfig | Some c \<Rightarrow> c)"
    by simp
  have n: "\<not> validTracerSpec (Tracer bogusConfig)"
    by (simp add: validTracerSpec_def bogusConfig_def defaultTraceConfig_def
        Contains_iff [symmetric])
  have v: "validTracerSpec (Tracer defaultTraceConfig)"
    by (simp add: validTracerSpec_def defaultTraceConfig_def)
  from tracer_accepted_iff_valid [OF c1, of spare80 exampleState "[1]", THEN conjunct1] n
  have a: "buildTraceTransaction spare80 exampleState [1] (Some bogusConfig)
     = ([], Done (None, Some (RPCError DefaultErrorCode ''invalid tracer'')))" by (rule mp)
  from tracer_accepted_iff_valid [OF c2, of spare80 exampleState "[1]",
      THEN conjunct2, THEN conjunct1] v
  have "\<exists>calls r. buildTraceTransaction spare80 exampleState [1] None
                   = (CallDebugTransaction [1] defaultTraceConfig # calls, r)
        \<and> r \<noteq> Done (None, Some (RPCError DefaultErrorCode ''invalid tracer''))" by (rule mp)
  then have b: "\<exists>calls r. buildTraceTransaction spare80 exampleState [1] None
                   = (CallDebugTransaction [1] defaultTraceConfig # calls, r)" by blast
  from a b show ?thesis by (rule conjI)
qed


section \<open>Block traces\<close>

text \<open>When the block was found, the block endpoints never return an error.\<close>

lemma traceFoundBlock_no_error:
  "traceFoundBlock spare st cfg (Inr blk) = (calls, Done (traces, rpcErr)) \<Longrightarrow> rpcErr = None"
  by (auto simp: traceFoundBlock_def errOf_def split: prod.splits outcome.splits)

text \<open>
  C2 (code defect). In the example state the trace of the second transaction of the block
  fails, and \<open>buildTraceBlock\<close> returns that failure. Both block endpoints test \<open>err\<close>, the
  error of the block lookup, where the error of \<open>buildTraceBlock\<close> is \<open>rpcErr\<close>: the lookup
  succeeded, so they return no result and no error.
\<close>

theorem block_endpoints_drop_transaction_error:
  "snd (buildTraceBlock spare80 exampleState (take 2 exampleTxs) None)
     = Done (None, Some (RPCError DefaultErrorCode ''failed to get trace for transaction 0x02''))
   \<and> snd (TraceBlockByNumber (\<lambda>r. r) spare80 exampleState 7 None) = Done (None, None)
   \<and> snd (TraceBlockByHash (\<lambda>r. r) spare80 exampleState [9] None) = Done (None, None)"
  by code_simp


section \<open>Batch traces\<close>

lemma mset_concat_map_perm:
  assumes "mset xs = mset ys"
  shows "mset (concat (map f xs)) = mset (concat (map f ys))"
proof -
  have "\<And>zs. mset (concat (map f zs)) = (\<Sum>z \<in># mset zs. mset (f z))"
  proof -
    fix zs show "mset (concat (map f zs)) = (\<Sum>z \<in># mset zs. mset (f z))"
      by (induction zs) simp_all
  qed
  then show ?thesis using assms by simp
qed

lemma concat_map_nth:
  "concat (map (\<lambda>i. if i < length xs then g (xs ! i) else []) [0..<length xs])
     = concat (map g xs)"
proof -
  have "map (\<lambda>i. if i < length xs then g (xs ! i) else []) [0..<length xs]
          = map (\<lambda>i. g (xs ! i)) [0..<length xs]" by simp
  also have "\<dots> = map g (map (\<lambda>i. xs ! i) [0..<length xs])" by simp
  also have "\<dots> = map g xs" by (simp only: map_nth)
  finally show ?thesis by simp
qed

lemma loadTraceByTxHash_list:
  "(case loadTraceByTxHash J url cfg rcpt of None \<Rightarrow> [] | Some r \<Rightarrow> [r]) =
     (case J url ''debug_traceTransaction'' (hashString (TxHash rcpt)) cfg of
        Inl err \<Rightarrow> []
      | Inr res \<Rightarrow>
          (case respError res of
             Some e \<Rightarrow> []
           | None \<Rightarrow> [\<lparr>batchTxHash = TxHash rcpt, batchResult = respResult res\<rparr>]))"
  by (simp add: loadTraceByTxHash_def split: sum.splits option.splits)

lemma gatherTraces_on_time:
  assumes "mset (sendOrder sched) = mset [0..<length receipts]"
    and "list_all (\<lambda>t. t < timeout) (doneAt sched)"
  shows "\<exists>calls traces. gatherTraces J sched url cfg batchNumber receipts
            = (calls, Done (Some traces, None))
          \<and> mset traces = mset (concat (map (\<lambda>rcpt.
               case J url ''debug_traceTransaction'' (hashString (TxHash rcpt)) cfg of
                 Inl err \<Rightarrow> []
               | Inr res \<Rightarrow>
                   (case respError res of
                      Some e \<Rightarrow> []
                    | None \<Rightarrow> [\<lparr>batchTxHash = TxHash rcpt, batchResult = respResult res\<rparr>]))
               receipts))"
proof -
  let ?sent = "map (loadTraceByTxHash J url cfg) receipts"
  let ?g = "\<lambda>i. if i < length ?sent then (case ?sent ! i of None \<Rightarrow> [] | Some r \<Rightarrow> [r]) else []"
  have w: "\<not> waitTimeout sched timeout" using assms(2) by (simp add: waitTimeout_def)
  have "mset (concat (map ?g (sendOrder sched))) = mset (concat (map ?g [0..<length ?sent]))"
    by (rule mset_concat_map_perm) (simp add: assms(1))
  also have "concat (map ?g [0..<length ?sent])
               = concat (map (\<lambda>x. case x of None \<Rightarrow> [] | Some r \<Rightarrow> [r]) ?sent)"
    by (rule concat_map_nth)
  also have "\<dots> = concat (map (\<lambda>rcpt. case loadTraceByTxHash J url cfg rcpt of
                                        None \<Rightarrow> [] | Some r \<Rightarrow> [r]) receipts)"
    by (simp add: comp_def)
  finally have "mset (concat (map ?g (sendOrder sched))) = mset (concat (map (\<lambda>rcpt.
               case J url ''debug_traceTransaction'' (hashString (TxHash rcpt)) cfg of
                 Inl err \<Rightarrow> []
               | Inr res \<Rightarrow>
                   (case respError res of
                      Some e \<Rightarrow> []
                    | None \<Rightarrow> [\<lparr>batchTxHash = TxHash rcpt, batchResult = respResult res\<rparr>]))
               receipts))"
    by (simp only: loadTraceByTxHash_list)
  then show ?thesis using w by (simp add: gatherTraces_def Let_def)
qed

lemma gatherTraces_late:
  assumes "list_ex (\<lambda>t. timeout < t) (doneAt sched)"
  shows "\<exists>calls. gatherTraces J sched url cfg batchNumber receipts
            = (calls, Done (None, Some (RPCError DefaultErrorCode
                 (''failed to get traces for batch '' @ decimal (unat batchNumber)
                    @ '': timeout reached''))))"
proof -
  from assms obtain t where "t \<in> set (doneAt sched)" "timeout < t"
    by (auto simp: list_ex_iff)
  then have "\<not> list_all (\<lambda>t. t < timeout) (doneAt sched)"
    by (force simp: list_all_iff)
  with assms have "waitTimeout sched timeout" by (simp add: waitTimeout_def)
  then show ?thesis
    by (simp add: gatherTraces_def Let_def rpcErrorResponse_def NewRPCError_def)
qed

lemma TraceBatchByNumber_fanout:
  assumes "GetNumericBatchNumber st number = Inr batchNumber"
    and "GetBatchByNumber st batchNumber = Inr batch"
    and "GetTransactionsByBatchNumber st (BatchNumber batch) = Inr txs"
    and "loadReceipts st [] txs = (rcalls, Inr receipts)"
  shows "TraceBatchByNumber scope urlString J sched st request number cfg =
           scope (case gatherTraces J sched (urlString (batchURL request)) cfg batchNumber receipts of
                    (calls, r) \<Rightarrow>
                      ([CallGetNumericBatchNumber number, CallGetBatchByNumber batchNumber,
                        CallGetTransactionsByBatchNumber (BatchNumber batch)] @ rcalls @ calls, r))"
proof -
  have r: "traceBatchReceipts J sched st (urlString (batchURL request)) cfg batchNumber txs
             = (case gatherTraces J sched (urlString (batchURL request)) cfg batchNumber receipts of
                  (calls, r) \<Rightarrow> (rcalls @ calls, r))"
    using assms(4) by (simp add: traceBatchReceipts_def)
  have t: "traceBatchTransactions J sched st (urlString (batchURL request)) cfg batchNumber batch
             = (case gatherTraces J sched (urlString (batchURL request)) cfg batchNumber receipts of
                  (calls, r) \<Rightarrow>
                    (CallGetTransactionsByBatchNumber (BatchNumber batch) # rcalls @ calls, r))"
    using assms(3) by (simp add: traceBatchTransactions_def Let_def r split: prod.splits)
  show ?thesis
    using assms(1,2) by (simp add: TraceBatchByNumber_def Let_def t split: prod.splits)
qed

text \<open>
  C5. When the batch, its transactions and their receipts were loaded and every task is
  done before the ten minutes are over, the request returns no error and a list that
  holds, whatever the order of the sends, exactly one pair of transaction hash and result
  for each receipt whose remote call succeeded: a transport error or an RPC-level error
  response contributes nothing.
\<close>

theorem batch_returns_successful_pairs:
  assumes "GetNumericBatchNumber st number = Inr batchNumber"
    and "GetBatchByNumber st batchNumber = Inr batch"
    and "GetTransactionsByBatchNumber st (BatchNumber batch) = Inr txs"
    and "loadReceipts st [] txs = (rcalls, Inr receipts)"
    and "mset (sendOrder sched) = mset [0..<length receipts]"
    and "list_all (\<lambda>t. t < 10 * 60 * 1000000000) (doneAt sched)"
  shows "\<exists>calls traces.
           TraceBatchByNumber scope urlString JSONRPCCall sched st request number cfg
             = scope (calls, Done (Some traces, None))
           \<and> mset traces = mset (concat (map (\<lambda>rcpt.
               case JSONRPCCall (urlString (batchURL request)) ''debug_traceTransaction''
                      (hashString (TxHash rcpt)) cfg of
                 Inl err \<Rightarrow> []
               | Inr res \<Rightarrow>
                   (case respError res of
                      Some e \<Rightarrow> []
                    | None \<Rightarrow> [\<lparr>batchTxHash = TxHash rcpt, batchResult = respResult res\<rparr>]))
               receipts))"
proof -
  from assms(6) have ot: "list_all (\<lambda>t. t < timeout) (doneAt sched)"
    by (simp add: timeout_def Minute_def)
  from gatherTraces_on_time [OF assms(5) ot, of JSONRPCCall "urlString (batchURL request)" cfg
      batchNumber]
  obtain calls traces where
    g: "gatherTraces JSONRPCCall sched (urlString (batchURL request)) cfg batchNumber receipts
          = (calls, Done (Some traces, None))"
    and m: "mset traces = mset (concat (map (\<lambda>rcpt.
               case JSONRPCCall (urlString (batchURL request)) ''debug_traceTransaction''
                      (hashString (TxHash rcpt)) cfg of
                 Inl err \<Rightarrow> []
               | Inr res \<Rightarrow>
                   (case respError res of
                      Some e \<Rightarrow> []
                    | None \<Rightarrow> [\<lparr>batchTxHash = TxHash rcpt, batchResult = respResult res\<rparr>]))
               receipts))" by (elim exE conjE)
  have "TraceBatchByNumber scope urlString JSONRPCCall sched st request number cfg
          = scope ([CallGetNumericBatchNumber number, CallGetBatchByNumber batchNumber,
                    CallGetTransactionsByBatchNumber (BatchNumber batch)] @ rcalls @ calls,
                   Done (Some traces, None))"
    by (simp add: TraceBatchByNumber_fanout [OF assms(1-4)] g)
  with m show ?thesis by (intro exI conjI)
qed

text \<open>
  C4. When the batch, its transactions and their receipts were loaded and some task is
  done only after the ten minutes are over, the request returns the timeout error and no
  result, whatever the remote calls answered and however many tasks were done in time.
\<close>

theorem batch_timeout_returns_error_only:
  assumes "GetNumericBatchNumber st number = Inr batchNumber"
    and "GetBatchByNumber st batchNumber = Inr batch"
    and "GetTransactionsByBatchNumber st (BatchNumber batch) = Inr txs"
    and "loadReceipts st [] txs = (rcalls, Inr receipts)"
    and "list_ex (\<lambda>t. 10 * 60 * 1000000000 < t) (doneAt sched)"
  shows "\<exists>calls.
           TraceBatchByNumber scope urlString JSONRPCCall sched st request number cfg
             = scope (calls, Done (None, Some (RPCError DefaultErrorCode
                 (''failed to get traces for batch '' @ decimal (unat batchNumber)
                    @ '': timeout reached''))))"
proof -
  from assms(5) have "list_ex (\<lambda>t. timeout < t) (doneAt sched)"
    by (simp add: timeout_def Minute_def)
  from gatherTraces_late [OF this, of JSONRPCCall "urlString (batchURL request)" cfg
      batchNumber receipts]
  obtain calls where
    g: "gatherTraces JSONRPCCall sched (urlString (batchURL request)) cfg batchNumber receipts
          = (calls, Done (None, Some (RPCError DefaultErrorCode
                 (''failed to get traces for batch '' @ decimal (unat batchNumber)
                    @ '': timeout reached''))))" by (elim exE)
  have "TraceBatchByNumber scope urlString JSONRPCCall sched st request number cfg
          = scope ([CallGetNumericBatchNumber number, CallGetBatchByNumber batchNumber,
                    CallGetTransactionsByBatchNumber (BatchNumber batch)] @ rcalls @ calls,
                   Done (None, Some (RPCError DefaultErrorCode
                 (''failed to get traces for batch '' @ decimal (unat batchNumber)
                    @ '': timeout reached''))))"
    by (simp add: TraceBatchByNumber_fanout [OF assms(1-4)] g)
  then show ?thesis by (intro exI)
qed

lemma remoteCallsTo_append [simp]:
  "remoteCallsTo url (xs @ ys) \<longleftrightarrow> remoteCallsTo url xs \<and> remoteCallsTo url ys"
  by (simp add: remoteCallsTo_def)

lemma remoteCallsTo_gatherTraces:
  "gatherTraces J sched url cfg batchNumber receipts = (calls, r) \<Longrightarrow> remoteCallsTo url calls"
  by (auto simp: gatherTraces_def Let_def remoteCallsTo_def list_all_iff split: if_splits)

lemma remoteCallsTo_loadReceipts:
  "loadReceipts st acc txs = (calls, r) \<Longrightarrow> remoteCallsTo url calls"
proof (induction txs arbitrary: acc calls r)
  case Nil
  then show ?case by (simp add: remoteCallsTo_def)
next
  case (Cons tx txs)
  show ?case
  proof (cases "GetTransactionReceipt st (Hash tx)")
    case (Inl e)
    with Cons.prems show ?thesis by (auto simp: remoteCallsTo_def)
  next
    case (Inr rcpt)
    obtain calls' r' where l: "loadReceipts st (acc @ [rcpt]) txs = (calls', r')"
      by (cases "loadReceipts st (acc @ [rcpt]) txs")
    from Cons.IH [OF l] have "remoteCallsTo url calls'" .
    with Cons.prems Inr l show ?thesis by (auto simp: remoteCallsTo_def)
  qed
qed

lemma remoteCallsTo_traceBatchReceipts:
  "remoteCallsTo url (fst (traceBatchReceipts J sched st url cfg bn txs))"
proof -
  obtain rcalls rr where l: "loadReceipts st [] txs = (rcalls, rr)"
    by (cases "loadReceipts st [] txs")
  note rc = remoteCallsTo_loadReceipts [OF l, of url]
  show ?thesis
  proof (cases rr)
    case (Inl failure)
    with l rc show ?thesis by (cases failure) (simp add: traceBatchReceipts_def)
  next
    case (Inr receipts)
    obtain gcalls gr where g: "gatherTraces J sched url cfg bn receipts = (gcalls, gr)"
      by (cases "gatherTraces J sched url cfg bn receipts")
    from remoteCallsTo_gatherTraces [OF g] l rc Inr g show ?thesis
      by (simp add: traceBatchReceipts_def)
  qed
qed

lemma remoteCallsTo_traceBatchTransactions:
  "remoteCallsTo url (fst (traceBatchTransactions J sched st url cfg bn batch))"
proof -
  let ?lookup = "GetTransactionsByBatchNumber st (BatchNumber batch)"
  let ?txs = "case ?lookup of Inl err \<Rightarrow> [] | Inr txs \<Rightarrow> txs"
  have one: "remoteCallsTo url [CallGetTransactionsByBatchNumber (BatchNumber batch)]"
    by (simp add: remoteCallsTo_def)
  obtain calls r where t: "traceBatchReceipts J sched st url cfg bn ?txs = (calls, r)"
    by (cases "traceBatchReceipts J sched st url cfg bn ?txs")
  from remoteCallsTo_traceBatchReceipts [of url J sched st cfg bn ?txs] t
  have "remoteCallsTo url calls" by simp
  with one t show ?thesis
    by (simp add: traceBatchTransactions_def Let_def remoteCallsTo_def)
qed

lemma remoteCallsTo_TraceBatchByNumber:
  "remoteCallsTo (urlString (batchURL request))
     (fst (TraceBatchByNumber (\<lambda>r. r) urlString J sched st request number cfg))"
proof (cases "GetNumericBatchNumber st number")
  case (Inl e)
  then show ?thesis by (simp add: TraceBatchByNumber_def remoteCallsTo_def)
next
  case n: (Inr bn)
  show ?thesis
  proof (cases "GetBatchByNumber st bn")
    case (Inl e)
    with n show ?thesis by (simp add: TraceBatchByNumber_def Let_def remoteCallsTo_def)
  next
    case b: (Inr batch)
    obtain calls r where
      t: "traceBatchTransactions J sched st (urlString (batchURL request)) cfg bn batch = (calls, r)"
      by (cases "traceBatchTransactions J sched st (urlString (batchURL request)) cfg bn batch")
    from remoteCallsTo_traceBatchTransactions
           [of "urlString (batchURL request)" J sched st cfg bn batch] t
    have "remoteCallsTo (urlString (batchURL request)) calls" by simp
    with n b t show ?thesis by (simp add: TraceBatchByNumber_def Let_def remoteCallsTo_def)
  qed
qed

text \<open>
  C10. The URL built from the inbound request has the request's host and path, and the
  request URL's scheme, or \<open>https\<close> when that scheme is empty; every remote call of the
  request goes to the rendering of that URL.
\<close>

theorem batch_target_url:
  "Scheme (batchURL request)
     = (if Scheme (reqURL request) = [] then ''https'' else Scheme (reqURL request))
   \<and> Host (batchURL request) = reqHost request
   \<and> Path (batchURL request) = Path (reqURL request)
   \<and> (\<forall>u m h c. CallJSONRPC u m h c
          \<in> set (fst (TraceBatchByNumber (\<lambda>r. r) urlString JSONRPCCall sched st request number cfg))
        \<longrightarrow> u = urlString (batchURL request))"
proof (intro conjI allI impI)
  show "Scheme (batchURL request)
     = (if Scheme (reqURL request) = [] then ''https'' else Scheme (reqURL request))"
    by (simp add: batchURL_def)
  show "Host (batchURL request) = reqHost request" by (simp add: batchURL_def Let_def)
  show "Path (batchURL request) = Path (reqURL request)" by (simp add: batchURL_def Let_def)
next
  fix u m h c
  assume "CallJSONRPC u m h c
          \<in> set (fst (TraceBatchByNumber (\<lambda>r. r) urlString JSONRPCCall sched st request number cfg))"
  with remoteCallsTo_TraceBatchByNumber [of urlString request JSONRPCCall sched st number cfg]
  show "u = urlString (batchURL request)"
    by (auto simp: remoteCallsTo_def list_all_iff)
qed


lemma example_lookups:
  "GetNumericBatchNumber exampleState 7 = Inr 7"
  "GetBatchByNumber exampleState 7 = Inr \<lparr>BatchNumber = 7\<rparr>"
  "GetTransactionsByBatchNumber exampleState (BatchNumber \<lparr>BatchNumber = 7\<rparr>) = Inr exampleTxs"
  "loadReceipts exampleState [] exampleTxs
     = (map (\<lambda>tx. CallGetTransactionReceipt (Hash tx)) exampleTxs,
        Inr (map (\<lambda>tx. \<lparr>TxHash = Hash tx, Status = 1\<rparr>) exampleTxs))"
  by (simp_all add: exampleState_def exampleTxs_def)

lemma example_hashes:
  "hashString [1] = ''0x01''" "hashString [2] = ''0x02''" "hashString [3] = ''0x03''"
  "hashString [4] = ''0x04''" "hashString [5] = ''0x05''"
  by (simp_all add: hashString_def EncodeToString_def hexByte_def hextable_def)

theorem batch_returns_successful_pairs_witness:
  "\<exists>calls traces.
     TraceBatchByNumber (\<lambda>r. r) exampleUrlString exampleRPC onTime exampleState exampleRequest 7 None
       = (calls, Done (Some traces, None))
     \<and> mset traces = mset [\<lparr>batchTxHash = [1], batchResult = [1, 2, 3]\<rparr>,
                           \<lparr>batchTxHash = [3], batchResult = [1, 2, 3]\<rparr>,
                           \<lparr>batchTxHash = [5], batchResult = [1, 2, 3]\<rparr>]"
proof -
  have o: "mset (sendOrder onTime)
             = mset [0..<length (map (\<lambda>tx. \<lparr>TxHash = Hash tx, Status = 1\<rparr>) exampleTxs)]"
    by (simp add: onTime_def exampleTxs_def upt_rec eval_nat_numeral)
  have t: "list_all (\<lambda>t. t < 10 * 60 * 1000000000) (doneAt onTime)"
    by (simp add: onTime_def)
  from batch_returns_successful_pairs [OF example_lookups o t,
      of "\<lambda>r. r" exampleUrlString exampleRPC exampleRequest None]
  obtain calls traces where
    r: "TraceBatchByNumber (\<lambda>r. r) exampleUrlString exampleRPC onTime exampleState exampleRequest 7 None
          = (calls, Done (Some traces, None))"
    and m: "mset traces = mset (concat (map (\<lambda>rcpt.
               case exampleRPC (exampleUrlString (batchURL exampleRequest)) ''debug_traceTransaction''
                      (hashString (TxHash rcpt)) None of
                 Inl err \<Rightarrow> []
               | Inr res \<Rightarrow>
                   (case respError res of
                      Some e \<Rightarrow> []
                    | None \<Rightarrow> [\<lparr>batchTxHash = TxHash rcpt, batchResult = respResult res\<rparr>]))
               (map (\<lambda>tx. \<lparr>TxHash = Hash tx, Status = 1\<rparr>) exampleTxs)))"
    by (elim exE conjE)
  from m have "mset traces = mset [\<lparr>batchTxHash = [1], batchResult = [1, 2, 3]\<rparr>,
                           \<lparr>batchTxHash = [3], batchResult = [1, 2, 3]\<rparr>,
                           \<lparr>batchTxHash = [5], batchResult = [1, 2, 3]\<rparr>]"
    by (simp add: exampleTxs_def example_hashes exampleRPC_def)
  with r show ?thesis by (intro exI conjI)
qed

theorem batch_timeout_returns_error_only_witness:
  "\<exists>calls.
     TraceBatchByNumber (\<lambda>r. r) exampleUrlString exampleRPC tooLate exampleState exampleRequest 7 None
       = (calls, Done (None, Some (RPCError DefaultErrorCode
            ''failed to get traces for batch 7: timeout reached'')))"
proof -
  have t: "list_ex (\<lambda>t. 10 * 60 * 1000000000 < t) (doneAt tooLate)"
    by (simp add: tooLate_def onTime_def)
  have d: "decimal 7 = ''7''"
    by (simp add: decimal.simps)
  from batch_timeout_returns_error_only [OF example_lookups t,
      of "\<lambda>r. r" exampleUrlString exampleRPC exampleRequest None]
  show ?thesis by (simp add: d)
qed

theorem batch_target_url_witness:
  "Scheme (batchURL exampleRequest) = ''https''
   \<and> CallJSONRPC ''https://node.example:8545/rpc'' ''debug_traceTransaction'' ''0x01'' None
        \<in> set (fst (TraceBatchByNumber (\<lambda>r. r) exampleUrlString exampleRPC onTime exampleState
                       exampleRequest 7 None))"
proof -
  note t = batch_target_url [of exampleRequest exampleUrlString exampleRPC onTime exampleState 7 None]
  from t have s: "Scheme (batchURL exampleRequest) = ''https''"
    by (simp add: exampleRequest_def)
  have "TraceBatchByNumber (\<lambda>r. r) exampleUrlString exampleRPC onTime exampleState
                       exampleRequest 7 None
          = (case gatherTraces exampleRPC onTime (exampleUrlString (batchURL exampleRequest)) None 7
                    (map (\<lambda>tx. \<lparr>TxHash = Hash tx, Status = 1\<rparr>) exampleTxs) of
               (calls, r) \<Rightarrow>
                 ([CallGetNumericBatchNumber 7, CallGetBatchByNumber 7,
                   CallGetTransactionsByBatchNumber (BatchNumber \<lparr>BatchNumber = 7\<rparr>)]
                  @ map (\<lambda>tx. CallGetTransactionReceipt (Hash tx)) exampleTxs @ calls, r))"
    by (rule TraceBatchByNumber_fanout [OF example_lookups])
  then have m: "CallJSONRPC (exampleUrlString (batchURL exampleRequest)) ''debug_traceTransaction''
                  ''0x01'' None
        \<in> set (fst (TraceBatchByNumber (\<lambda>r. r) exampleUrlString exampleRPC onTime exampleState
                       exampleRequest 7 None))"
    by (simp add: gatherTraces_def Let_def exampleTxs_def example_hashes split: prod.splits)
  have "exampleUrlString (batchURL exampleRequest) = ''https://node.example:8545/rpc''"
    using t by (simp add: exampleUrlString_def exampleRequest_def)
  with m s show ?thesis by simp
qed


end
